theory Spec2Isabelle
  imports Main "HOL-Library.Word"
begin

section \<open>JavaScript values\<close>

text \<open>
  A JavaScript string is a sequence of UTF-16 code units; \<open>length\<close> counts them and
  \<open>slice\<close> cuts between them.  String literals of the source are embedded with \<open>lit\<close>,
  which maps a character to the code unit of the same number (ASCII and Latin-1, so
  \<open>CHR 0xE1\<close> is the letter a with acute accent).
\<close>

type_synonym jstring = "16 word list"

definition lit :: "string \<Rightarrow> jstring" where
  "lit s = map of_char s"

definition nl :: jstring where
  "nl = lit [CHR 0x0A]"

text \<open>\<open>String(n)\<close> and \<open>`${n}`\<close> for an integer \<open>n\<close>: decimal digits, a minus sign
  when negative.\<close>

fun dec :: "nat \<Rightarrow> string" where
  "dec n = (if n < 10 then [''0123456789'' ! n]
            else dec (n div 10) @ [''0123456789'' ! (n mod 10)])"

declare dec.simps [simp del]

text \<open>The number a string of decimal digits denotes.\<close>

definition dec_value :: "string \<Rightarrow> nat" where
  "dec_value s = foldl (\<lambda>a c. 10 * a + (of_char c - 48)) 0 s"

definition String_nat :: "nat \<Rightarrow> jstring" where
  "String_nat n = lit (dec n)"

definition String_int :: "int \<Rightarrow> jstring" where
  "String_int i = (if i < 0 then lit ''-'' @ String_nat (nat (- i)) else String_nat (nat i))"

text \<open>\<open>xs.join(sep)\<close> on an array of strings.\<close>

fun join :: "jstring \<Rightarrow> jstring list \<Rightarrow> jstring" where
  "join sep [] = []"
| "join sep [x] = x"
| "join sep (x # y # ys) = x @ sep @ join sep (y # ys)"

text \<open>\<open>s.split(c)\<close> for a one-character separator: the pieces between the separators,
  empty pieces included (\<open>"".split("/")\<close> is \<open>[""]\<close>).\<close>

fun split_on :: "'a \<Rightarrow> 'a list \<Rightarrow> 'a list list" where
  "split_on c [] = [[]]"
| "split_on c (x # xs) =
     (if x = c then [] # split_on c xs
      else (case split_on c xs of [] \<Rightarrow> [[x]] | p # ps \<Rightarrow> (x # p) # ps))"

text \<open>\<open>xs.findIndex(P)\<close>: the index of the first element satisfying \<open>P\<close>, or \<open>-1\<close>.\<close>

fun findIndex :: "('a \<Rightarrow> bool) \<Rightarrow> 'a list \<Rightarrow> int" where
  "findIndex P [] = - 1"
| "findIndex P (x # xs) =
     (if P x then 0 else (let i = findIndex P xs in if i < 0 then - 1 else i + 1))"

text \<open>\<open>xs[i]\<close>: \<open>None\<close> is \<open>undefined\<close>, the value of a read out of range.\<close>

definition at_index :: "'a list \<Rightarrow> int \<Rightarrow> 'a option" where
  "at_index xs i = (if 0 \<le> i \<and> i < int (length xs) then Some (xs ! nat i) else None)"

text \<open>\<open>!s\<close> for a string that may be \<open>undefined\<close>: true when it is
  \<open>undefined\<close> or empty.\<close>

definition falsy :: "jstring option \<Rightarrow> bool" where
  "falsy s = (case s of None \<Rightarrow> True | Some t \<Rightarrow> t = [])"

text \<open>
  A parsed JSON value.  Numbers are integers: the counts and identifiers the upstream
  sends.  A value of type \<open>json option\<close> is a JavaScript value that may be
  \<open>undefined\<close> (\<open>None\<close>).
\<close>

datatype json =
    JNull
  | JBool bool
  | JNum int
  | JStr jstring
  | JArr "json list"
  | JObj "(jstring \<times> json) list"

text \<open>
  \<open>v.k\<close> for a value \<open>v\<close> that is neither \<open>null\<close> nor \<open>undefined\<close> and one
  of the property names this program reads, none of which is a built-in property of a
  string, number, boolean or array.  \<open>JSON.parse\<close> keeps the last of several members
  with the same key.
\<close>

definition get_prop :: "json \<Rightarrow> string \<Rightarrow> json option" where
  "get_prop v k = (case v of JObj kvs \<Rightarrow> map_of (rev kvs) (lit k) | _ \<Rightarrow> None)"

text \<open>\<open>v?.k\<close>: \<open>undefined\<close> when \<open>v\<close> is \<open>null\<close> or \<open>undefined\<close>.\<close>

definition opt_prop :: "json option \<Rightarrow> string \<Rightarrow> json option" where
  "opt_prop v k = (case v of None \<Rightarrow> None | Some JNull \<Rightarrow> None | Some j \<Rightarrow> get_prop j k)"

text \<open>Truthiness, as \<open>?:\<close>, \<open>||\<close> and \<open>!\<close> test it.\<close>

definition truthy :: "json option \<Rightarrow> bool" where
  "truthy v =
     (case v of
        None \<Rightarrow> False
      | Some JNull \<Rightarrow> False
      | Some (JBool b) \<Rightarrow> b
      | Some (JNum n) \<Rightarrow> n \<noteq> 0
      | Some (JStr s) \<Rightarrow> s \<noteq> []
      | Some (JArr xs) \<Rightarrow> True
      | Some (JObj kvs) \<Rightarrow> True)"

text \<open>The string a value becomes in a template literal or in \<open>join\<close>: an array is
  its elements joined by commas (\<open>null\<close> elements as the empty string), an object is
  \<open>[object Object]\<close>.\<close>

fun to_string :: "json \<Rightarrow> jstring" where
  "to_string JNull = lit ''null''"
| "to_string (JBool b) = (if b then lit ''true'' else lit ''false'')"
| "to_string (JNum n) = String_int n"
| "to_string (JStr s) = s"
| "to_string (JArr xs) =
     join (lit '','') (map (\<lambda>x. if x = JNull then [] else to_string x) xs)"
| "to_string (JObj kvs) = lit ''[object Object]''"

definition template :: "json option \<Rightarrow> jstring" where
  "template v = (case v of None \<Rightarrow> lit ''undefined'' | Some j \<Rightarrow> to_string j)"

text \<open>What the program throws: \<open>new Error(message)\<close>, and the \<open>TypeError\<close> and
  \<open>SyntaxError\<close> of the platform (a method of \<open>null\<close>, a body that is not JSON).\<close>

datatype js_error = Error jstring | TypeError | SyntaxError

section \<open>The URL of a pull request\<close>

text \<open>
  \<open>new URL(s)\<close> is the platform's parser; the program reads \<open>hostname\<close> and
  \<open>pathname\<close> of its result.  It is a parameter of the model: \<open>None\<close> when the
  constructor throws.
\<close>

record url =
  hostname :: jstring
  pathname :: jstring

record pr_ref =
  owner :: jstring
  repo :: jstring
  number :: jstring

text \<open>
  \<^verbatim>\<open>
  function parsePrUrl(pr_url) {
    // https://github.com/{owner}/{repo}/pull/{number}
    const u = new URL(pr_url);
    const parts = u.pathname.split("/").filter(Boolean);
    const pullIdx = parts.findIndex((p) => p === "pull");
    if (u.hostname !== "github.com" || pullIdx < 2 || !parts[pullIdx + 1]) {
      throw new Error(
        "URL inv\u00e1lida. Esperaba algo como https://github.com/OWNER/REPO/pull/123"
      );
    }
    return { owner: parts[0], repo: parts[1], number: parts[pullIdx + 1] };
  }
  \<close>
\<close>

definition invalid_pr_url :: js_error where
  "invalid_pr_url =
     Error (lit (''URL inv'' @ [CHR 0xE1] @
       ''lida. Esperaba algo como https://github.com/OWNER/REPO/pull/123''))"

definition path_parts :: "jstring \<Rightarrow> jstring list" where
  "path_parts p = filter (\<lambda>s. s \<noteq> []) (split_on (of_char CHR ''/'') p)"

definition parsePrUrl :: "(jstring \<Rightarrow> url option) \<Rightarrow> jstring \<Rightarrow> js_error + pr_ref" where
  "parsePrUrl new_URL pr_url =
     (case new_URL pr_url of
        None \<Rightarrow> Inl TypeError
      | Some u \<Rightarrow>
          (let parts = path_parts (pathname u);
               pullIdx = findIndex (\<lambda>p. p = lit ''pull'') parts
           in if hostname u \<noteq> lit ''github.com'' \<or> pullIdx < 2
                   \<or> falsy (at_index parts (pullIdx + 1))
              then Inl invalid_pr_url
              else Inr \<lparr>owner = parts ! 0, repo = parts ! 1,
                        number = parts ! nat (pullIdx + 1)\<rparr>))"

section \<open>The GitHub REST client\<close>

text \<open>
  The URLs the program requests, by endpoint and the values substituted into it:
  \<^item> \<open>UserRepos per_page visibility\<close>:
    \<open>https://api.github.com/user/repos?per_page=..&visibility=..\<close>
  \<^item> \<open>RepoPulls owner repo state per_page\<close>:
    \<open>https://api.github.com/repos/{owner}/{repo}/pulls?state=..&per_page=..\<close>
  \<^item> \<open>Pull owner repo number\<close>:
    \<open>https://api.github.com/repos/{owner}/{repo}/pulls/{number}\<close>
  \<^item> \<open>PullFiles owner repo number per_page page\<close>:
    \<open>https://api.github.com/repos/{owner}/{repo}/pulls/{number}/files?per_page=..&page=..\<close>

  A request is a URL with the \<open>Accept\<close> header sent with it (the bearer token is
  the same on every request).
\<close>

datatype api_url =
    UserRepos nat jstring
  | RepoPulls jstring jstring jstring nat
  | Pull jstring jstring jstring
  | PullFiles jstring jstring jstring nat nat

type_synonym request = "api_url \<times> jstring"

text \<open>A response: its status, its body as \<open>resp.text()\<close> gives it and as
  \<open>resp.json()\<close> parses it (\<open>None\<close> when the body is not JSON).\<close>

record response =
  status :: nat
  body_text :: jstring
  body_json :: "json option"

definition ok :: "response \<Rightarrow> bool" where
  "ok resp \<longleftrightarrow> 200 \<le> status resp \<and> status resp \<le> 299"

text \<open>
  The upstream is the environment of the program: given the requests already sent during
  this tool call and the next request, \<open>fetch\<close> rejects with an error or resolves
  to a response.  Every function that fetches takes the log of the requests sent so far
  and returns it extended, with its result or the error it throws.
\<close>

type_synonym upstream = "request list \<Rightarrow> request \<Rightarrow> js_error + response"

definition json_accept :: jstring where
  "json_accept = lit ''application/vnd.github+json''"

definition diff_accept :: jstring where
  "diff_accept = lit ''application/vnd.github.v3.diff''"

text \<open>
  \<^verbatim>\<open>
  async function ghFetchJson(url) {
    const resp = await fetch(url, { headers: { Authorization: ..., Accept: "application/vnd.github+json" } });
    if (!resp.ok) {
      const text = await resp.text();
      throw new Error(`GitHub API error ${resp.status}: ${text}`);
    }
    return resp.json();
  }
  \<close>
  \<open>ghFetchText(url, accept)\<close> is the same with the \<open>Accept\<close> header given by
  the caller and \<open>resp.text()\<close> as its result.
\<close>

definition api_error :: "response \<Rightarrow> js_error" where
  "api_error resp =
     Error (lit ''GitHub API error '' @ String_nat (status resp) @ lit '': '' @ body_text resp)"

definition ghFetchJson ::
  "upstream \<Rightarrow> api_url \<Rightarrow> request list \<Rightarrow> request list \<times> (js_error + json)" where
  "ghFetchJson up u log =
     (let req = (u, json_accept) in
      (log @ [req],
       case up log req of
         Inl e \<Rightarrow> Inl e
       | Inr resp \<Rightarrow>
           if \<not> ok resp then Inl (api_error resp)
           else (case body_json resp of None \<Rightarrow> Inl SyntaxError | Some j \<Rightarrow> Inr j)))"

definition ghFetchText ::
  "upstream \<Rightarrow> api_url \<Rightarrow> jstring \<Rightarrow> request list \<Rightarrow> request list \<times> (js_error + jstring)" where
  "ghFetchText up u accept log =
     (let req = (u, accept) in
      (log @ [req],
       case up log req of
         Inl e \<Rightarrow> Inl e
       | Inr resp \<Rightarrow>
           if \<not> ok resp then Inl (api_error resp) else Inr (body_text resp)))"

section \<open>Listing the files of a pull request, page by page\<close>

text \<open>
  \<^verbatim>\<open>
  async function listPrFilesPaginated({ owner, repo, number, max_files }) {
    const perPage = Math.min(100, Math.max(1, max_files));
    let page = 1;
    const all = [];
    while (all.length < max_files) {
      const remaining = max_files - all.length;
      const currentPerPage = Math.min(perPage, remaining);
      const url = new URL(`https://api.github.com/repos/${owner}/${repo}/pulls/${number}/files`);
      url.searchParams.set("per_page", String(currentPerPage));
      url.searchParams.set("page", String(page));
      const batch = await ghFetchJson(url.toString());
      if (!Array.isArray(batch) || batch.length === 0) break;
      all.push(...batch);
      if (batch.length < currentPerPage) break;
      page += 1;
    }
    return all.slice(0, max_files);
  }
  \<close>
  \<open>max_files\<close> is a natural number: the schema of the one caller admits the integers
  from 1 to 300, and 0 is the value the specification asks about beyond them.

  \<open>files_loop\<close> is the \<open>while\<close> loop with its variables \<open>page\<close> and
  \<open>all\<close>; it returns \<open>all\<close> as the loop leaves it.  Each round that continues
  has appended a non-empty batch, so the loop ends.
\<close>

function files_loop ::
  "upstream \<Rightarrow> jstring \<Rightarrow> jstring \<Rightarrow> jstring \<Rightarrow> nat \<Rightarrow> nat \<Rightarrow> nat \<Rightarrow> json list
     \<Rightarrow> request list \<Rightarrow> request list \<times> (js_error + json list)" where
  "files_loop up own rep num max_files perPage page all log =
     (if length all < max_files then
        (let remaining = max_files - length all;
             currentPerPage = min perPage remaining
         in case ghFetchJson up (PullFiles own rep num currentPerPage page) log of
              (log', Inl e) \<Rightarrow> (log', Inl e)
            | (log', Inr batch) \<Rightarrow>
                (case batch of
                   JArr b \<Rightarrow>
                     if b = [] then (log', Inr all)
                     else if length b < currentPerPage then (log', Inr (all @ b))
                     else files_loop up own rep num max_files perPage (page + 1)
                            (all @ b) log'
                 | _ \<Rightarrow> (log', Inr all)))
      else (log, Inr all))"
  by pat_completeness auto
termination
  by (relation "measure (\<lambda>(up, own, rep, num, max_files, perPage, page, all, log).
        max_files - length all)") (auto simp: neq_Nil_conv)

declare files_loop.simps [simp del]

definition listPrFilesPaginated ::
  "upstream \<Rightarrow> jstring \<Rightarrow> jstring \<Rightarrow> jstring \<Rightarrow> nat \<Rightarrow> request list
     \<Rightarrow> request list \<times> (js_error + json list)" where
  "listPrFilesPaginated up own rep num max_files log =
     (let perPage = min 100 (max 1 max_files) in
      case files_loop up own rep num max_files perPage 1 [] log of
        (log', Inl e) \<Rightarrow> (log', Inl e)
      | (log', Inr all) \<Rightarrow> (log', Inr (take max_files all)))"

section \<open>The tools\<close>

text \<open>
  A tool handler takes its arguments as the protocol layer hands them over (an optional
  argument is \<open>None\<close> when the caller left it out, and the handler's default
  applies) and returns the requests it sent with the text of its one content block, or
  the error it throws.
\<close>

definition default :: "'a \<Rightarrow> 'a option \<Rightarrow> 'a" where
  "default d v = (case v of None \<Rightarrow> d | Some x \<Rightarrow> x)"

text \<open>\<open>xs.map(f)\<close> where \<open>f\<close> may throw: the first error ends it.\<close>

fun map_result :: "('a \<Rightarrow> js_error + 'b) \<Rightarrow> 'a list \<Rightarrow> js_error + 'b list" where
  "map_result f [] = Inr []"
| "map_result f (x # xs) =
     (case f x of
        Inl e \<Rightarrow> Inl e
      | Inr y \<Rightarrow> (case map_result f xs of Inl e \<Rightarrow> Inl e | Inr ys \<Rightarrow> Inr (y # ys)))"

text \<open>\<open>v.map(f)\<close> on a parsed body: only an array has the method.\<close>

definition js_map :: "(json \<Rightarrow> js_error + 'b) \<Rightarrow> json \<Rightarrow> js_error + 'b list" where
  "js_map f v = (case v of JArr xs \<Rightarrow> map_result f xs | _ \<Rightarrow> Inl TypeError)"

subsection \<open>\<open>github_list_repos\<close>\<close>

text \<open>
  \<^verbatim>\<open>
  async ({ visibility = "all", per_page = 100 }) => {
    ...
    const repos = await ghFetchJson(url.toString());
    const names = repos.map((r) => `${r.full_name} (${r.private ? "private" : "public"})`);
    return { content: [{ type: "text", text: names.join("\n") }] };
  }
  \<close>
\<close>

definition repo_line :: "json \<Rightarrow> js_error + jstring" where
  "repo_line r =
     (if r = JNull then Inl TypeError
      else Inr (template (get_prop r ''full_name'') @ lit '' ('' @
                (if truthy (get_prop r ''private'') then lit ''private'' else lit ''public'') @
                lit '')''))"

definition github_list_repos ::
  "upstream \<Rightarrow> jstring option \<Rightarrow> nat option \<Rightarrow> request list \<times> (js_error + jstring)" where
  "github_list_repos up visibility_arg per_page_arg =
     (let visibility = default (lit ''all'') visibility_arg;
          per_page = default 100 per_page_arg
      in case ghFetchJson up (UserRepos per_page visibility) [] of
           (log, Inl e) \<Rightarrow> (log, Inl e)
         | (log, Inr repos) \<Rightarrow>
             (case js_map repo_line repos of
                Inl e \<Rightarrow> (log, Inl e)
              | Inr names \<Rightarrow> (log, Inr (join nl names))))"

subsection \<open>\<open>github_list_pull_requests\<close>\<close>

text \<open>
  \<^verbatim>\<open>
  async ({ owner, repo, state = "open", per_page = 30 }) => {
    ...
    const prs = await ghFetchJson(url.toString());
    const lines = prs.map(
      (pr) => `#${pr.number} ${pr.title} \u2014 ${pr.user?.login} \u2014 ${pr.html_url}`
    );
    return { content: [{ type: "text", text: lines.join("\n") || "(no PRs)" }] };
  }
  \<close>
\<close>

definition em_dash :: jstring where
  "em_dash = [0x2014]"

definition pr_line :: "json \<Rightarrow> js_error + jstring" where
  "pr_line pr =
     (if pr = JNull then Inl TypeError
      else Inr (lit ''#'' @ template (get_prop pr ''number'') @ lit '' '' @
                template (get_prop pr ''title'') @ lit '' '' @ em_dash @ lit '' '' @
                template (opt_prop (get_prop pr ''user'') ''login'') @ lit '' '' @ em_dash @
                lit '' '' @ template (get_prop pr ''html_url'')))"

definition github_list_pull_requests ::
  "upstream \<Rightarrow> jstring \<Rightarrow> jstring \<Rightarrow> jstring option \<Rightarrow> nat option
     \<Rightarrow> request list \<times> (js_error + jstring)" where
  "github_list_pull_requests up own rep state_arg per_page_arg =
     (let state = default (lit ''open'') state_arg;
          per_page = default 30 per_page_arg
      in case ghFetchJson up (RepoPulls own rep state per_page) [] of
           (log, Inl e) \<Rightarrow> (log, Inl e)
         | (log, Inr prs) \<Rightarrow>
             (case js_map pr_line prs of
                Inl e \<Rightarrow> (log, Inl e)
              | Inr lines \<Rightarrow>
                  (log, Inr (if join nl lines \<noteq> [] then join nl lines else lit ''(no PRs)''))))"

subsection \<open>\<open>github_get_pull_request_diff\<close>\<close>

text \<open>
  \<^verbatim>\<open>
  async ({ pr_url, max_diff_chars = 40000 }) => {
    const { owner, repo, number } = parsePrUrl(pr_url);
    const diff = await ghFetchText(
      `https://api.github.com/repos/${owner}/${repo}/pulls/${number}`,
      "application/vnd.github.v3.diff");
    const out = max_diff_chars === 0 ? diff : diff.slice(0, max_diff_chars);
    return { content: [{ type: "text", text:
      `PR Diff (unified) for ${pr_url}\n` +
      (max_diff_chars > 0 && diff.length > max_diff_chars
        ? `(truncado a ${max_diff_chars} chars de ${diff.length})\n\n`
        : "\n\n") +
      out }] };
  }
  \<close>
\<close>

definition github_get_pull_request_diff ::
  "(jstring \<Rightarrow> url option) \<Rightarrow> upstream \<Rightarrow> jstring \<Rightarrow> nat option
     \<Rightarrow> request list \<times> (js_error + jstring)" where
  "github_get_pull_request_diff new_URL up pr_url max_diff_chars_arg =
     (let max_diff_chars = default 40000 max_diff_chars_arg in
      case parsePrUrl new_URL pr_url of
        Inl e \<Rightarrow> ([], Inl e)
      | Inr ref \<Rightarrow>
          (case ghFetchText up (Pull (owner ref) (repo ref) (number ref)) diff_accept [] of
             (log, Inl e) \<Rightarrow> (log, Inl e)
           | (log, Inr diff) \<Rightarrow>
               (let out = (if max_diff_chars = 0 then diff else take max_diff_chars diff) in
                (log, Inr (lit ''PR Diff (unified) for '' @ pr_url @ nl @
                   (if 0 < max_diff_chars \<and> max_diff_chars < length diff
                    then lit ''(truncado a '' @ String_nat max_diff_chars @ lit '' chars de '' @
                         String_nat (length diff) @ lit '')'' @ nl @ nl
                    else nl @ nl) @
                   out)))))"

subsection \<open>\<open>github_summarize_pull_request\<close>\<close>

text \<open>
  The handler parses the URL, fetches the metadata \<open>pr\<close>, lists the files, and then:
  \<^verbatim>\<open>
  const fileLines = files.map((f) => {
    const base = `- ${f.filename} (+${f.additions}/-${f.deletions}) [${f.status}]`;
    if (!include_patches) return base;
    const patch = (f.patch || "").slice(0, max_patch_chars);
    return patch ? `${base}\n  patch:\n${patch.replace(/\n/g, "\n  ")}` : base;
  });
  let diffBlock = "";
  if (include_diff) {
    const diff = await ghFetchText(..., "application/vnd.github.v3.diff");
    const out = max_diff_chars === 0 ? diff : diff.slice(0, max_diff_chars);
    diffBlock = `\n\nUnified diff (global):\n` +
      (max_diff_chars > 0 && diff.length > max_diff_chars
        ? `(truncado a ${max_diff_chars} chars de ${diff.length})\n` : "") +
      out;
  }
  const text = [
    `PR: ${pr.html_url}`,
    `Title: ${pr.title}`,
    `Author: ${pr.user?.login}`,
    `State: ${pr.state} | Draft: ${pr.draft ? "yes" : "no"} | Merged: ${pr.merged ? "yes" : "no"}`,
    `Base: ${pr.base?.ref} <- Head: ${pr.head?.ref}`,
    `Commits: ${pr.commits} | Files changed: ${pr.changed_files} | Additions: ${pr.additions} | Deletions: ${pr.deletions}`,
    ``,
    `Description (body):`,
    pr.body ? pr.body : "(empty)",
    ``,
    `Changed files (up to ${max_files}):`,
    fileLines.join("\n\n"),
  ].join("\n");
  return { content: [{ type: "text", text:
    "Us\u00e1 el siguiente material para generar un resumen. " +
    "Inclu\u00ed: objetivo, cambios principales, archivos tocados, impacto, riesgos, checklist de revisi\u00f3n, y sugerencias de test.\n\n" +
    text + diffBlock }] };
  \<close>

  \<open>patch.replace(/\n/g, "\n  ")\<close> puts two spaces after every newline.
\<close>

definition indent_patch :: "jstring \<Rightarrow> jstring" where
  "indent_patch patch = concat (map (\<lambda>c. if [c] = nl then nl @ lit ''  '' else [c]) patch)"

text \<open>
  The callback of \<open>files.map\<close>.  \<open>(f.patch || "").slice(0, max_patch_chars)\<close> is a
  string when \<open>f.patch\<close> is a string or falsy; any other value has no \<open>slice\<close>
  that gives a string with a \<open>replace\<close> method, and the callback throws.
\<close>

definition file_base :: "json \<Rightarrow> jstring" where
  "file_base f =
     lit ''- '' @ template (get_prop f ''filename'') @ lit '' (+'' @
     template (get_prop f ''additions'') @ lit ''/-'' @
     template (get_prop f ''deletions'') @ lit '') ['' @
     template (get_prop f ''status'') @ lit '']''"

definition file_line :: "bool \<Rightarrow> nat \<Rightarrow> json \<Rightarrow> js_error + jstring" where
  "file_line include_patches max_patch_chars f =
     (if f = JNull then Inl TypeError
      else
        (let base = file_base f
         in if \<not> include_patches then Inr base
            else
              (case (if truthy (get_prop f ''patch'') then get_prop f ''patch''
                     else Some (JStr [])) of
                 Some (JStr s) \<Rightarrow>
                   (let patch = take max_patch_chars s in
                    if patch \<noteq> []
                    then Inr (base @ nl @ lit ''  patch:'' @ nl @ indent_patch patch)
                    else Inr base)
               | _ \<Rightarrow> Inl TypeError)))"

definition instructions :: jstring where
  "instructions =
     lit (''Us'' @ [CHR 0xE1] @ '' el siguiente material para generar un resumen. '') @
     lit (''Inclu'' @ [CHR 0xED] @ '': objetivo, cambios principales, archivos tocados, '' @
          ''impacto, riesgos, checklist de revisi'' @ [CHR 0xF3] @
          ''n, y sugerencias de test.'') @ nl @ nl"

definition yes_no :: "json option \<Rightarrow> jstring" where
  "yes_no v = (if truthy v then lit ''yes'' else lit ''no'')"

definition summary_text :: "json \<Rightarrow> nat \<Rightarrow> jstring list \<Rightarrow> jstring" where
  "summary_text pr max_files fileLines =
     join nl
       [lit ''PR: '' @ template (get_prop pr ''html_url''),
        lit ''Title: '' @ template (get_prop pr ''title''),
        lit ''Author: '' @ template (opt_prop (get_prop pr ''user'') ''login''),
        lit ''State: '' @ template (get_prop pr ''state'') @ lit '' | Draft: '' @
          yes_no (get_prop pr ''draft'') @ lit '' | Merged: '' @ yes_no (get_prop pr ''merged''),
        lit ''Base: '' @ template (opt_prop (get_prop pr ''base'') ''ref'') @ lit '' <- Head: '' @
          template (opt_prop (get_prop pr ''head'') ''ref''),
        lit ''Commits: '' @ template (get_prop pr ''commits'') @ lit '' | Files changed: '' @
          template (get_prop pr ''changed_files'') @ lit '' | Additions: '' @
          template (get_prop pr ''additions'') @ lit '' | Deletions: '' @
          template (get_prop pr ''deletions''),
        [],
        lit ''Description (body):'',
        (if truthy (get_prop pr ''body'') then template (get_prop pr ''body'')
         else lit ''(empty)''),
        [],
        lit ''Changed files (up to '' @ String_nat max_files @ lit ''):'',
        join (nl @ nl) fileLines]"

definition diff_block :: "nat \<Rightarrow> jstring \<Rightarrow> jstring" where
  "diff_block max_diff_chars diff =
     (let out = (if max_diff_chars = 0 then diff else take max_diff_chars diff) in
      nl @ nl @ lit ''Unified diff (global):'' @ nl @
      (if 0 < max_diff_chars \<and> max_diff_chars < length diff
       then lit ''(truncado a '' @ String_nat max_diff_chars @ lit '' chars de '' @
            String_nat (length diff) @ lit '')'' @ nl
       else []) @
      out)"

definition github_summarize_pull_request ::
  "(jstring \<Rightarrow> url option) \<Rightarrow> upstream \<Rightarrow> jstring \<Rightarrow> bool option \<Rightarrow> nat option \<Rightarrow> nat option
     \<Rightarrow> bool option \<Rightarrow> nat option \<Rightarrow> request list \<times> (js_error + jstring)" where
  "github_summarize_pull_request new_URL up pr_url include_patches_arg max_files_arg
       max_patch_chars_arg include_diff_arg max_diff_chars_arg =
     (let include_patches = default True include_patches_arg;
          max_files = default 50 max_files_arg;
          max_patch_chars = default 2000 max_patch_chars_arg;
          include_diff = default False include_diff_arg;
          max_diff_chars = default 40000 max_diff_chars_arg
      in
      case parsePrUrl new_URL pr_url of
        Inl e \<Rightarrow> ([], Inl e)
      | Inr ref \<Rightarrow>
      (case ghFetchJson up (Pull (owner ref) (repo ref) (number ref)) [] of
        (log1, Inl e) \<Rightarrow> (log1, Inl e)
      | (log1, Inr pr) \<Rightarrow>
      (case listPrFilesPaginated up (owner ref) (repo ref) (number ref) max_files log1 of
        (log2, Inl e) \<Rightarrow> (log2, Inl e)
      | (log2, Inr files) \<Rightarrow>
      (case map_result (file_line include_patches max_patch_chars) files of
        Inl e \<Rightarrow> (log2, Inl e)
      | Inr fileLines \<Rightarrow>
      (case (if include_diff
             then (case ghFetchText up (Pull (owner ref) (repo ref) (number ref))
                          diff_accept log2 of
                     (log3, Inl e) \<Rightarrow> (log3, Inl e)
                   | (log3, Inr diff) \<Rightarrow> (log3, Inr (diff_block max_diff_chars diff)))
             else (log2, Inr [])) of
        (log3, Inl e) \<Rightarrow> (log3, Inl e)
      | (log3, Inr diffBlock) \<Rightarrow>
          if pr = JNull then (log3, Inl TypeError)
          else (log3, Inr (instructions @ summary_text pr max_files fileLines @ diffBlock)))))))"

section \<open>A mock of the upstream\<close>

text \<open>
  The upstream as the GitHub REST API documents it, for one pull request with its
  metadata, its file-change records and its diff: the pull request's URL answers with
  the diff when the \<open>Accept\<close> header asks for one and with the metadata otherwise;
  the files URL answers with page \<open>page\<close> of the records cut into pages of
  \<open>per_page\<close>, pages counted from 1; every other URL is not found.  The answers do
  not depend on the requests sent before.
\<close>

definition github_pages :: "'a list \<Rightarrow> nat \<Rightarrow> nat \<Rightarrow> 'a list" where
  "github_pages items per_page page = take per_page (drop ((page - 1) * per_page) items)"

definition json_response :: "json \<Rightarrow> response" where
  "json_response j = \<lparr>status = 200, body_text = [], body_json = Some j\<rparr>"

definition text_response :: "jstring \<Rightarrow> response" where
  "text_response t = \<lparr>status = 200, body_text = t, body_json = None\<rparr>"

definition not_found :: response where
  "not_found = \<lparr>status = 404, body_text = lit ''Not Found'', body_json = None\<rparr>"

definition mock_upstream ::
  "jstring \<Rightarrow> jstring \<Rightarrow> jstring \<Rightarrow> json \<Rightarrow> json list \<Rightarrow> jstring \<Rightarrow> upstream" where
  "mock_upstream own rep num pr files diff log req =
     (case req of
        (Pull o' r' n', accept) \<Rightarrow>
          if o' = own \<and> r' = rep \<and> n' = num
          then (if accept = diff_accept then Inr (text_response diff)
                else Inr (json_response pr))
          else Inr not_found
      | (PullFiles o' r' n' per_page page, accept) \<Rightarrow>
          if o' = own \<and> r' = rep \<and> n' = num
          then Inr (json_response (JArr (github_pages files per_page page)))
          else Inr not_found
      | _ \<Rightarrow> Inr not_found)"

text \<open>The request for one page of the files of a pull request, as
  \<open>listPrFilesPaginated\<close> sends it.\<close>

definition page_request :: "jstring \<Rightarrow> jstring \<Rightarrow> jstring \<Rightarrow> nat \<Rightarrow> nat \<Rightarrow> request" where
  "page_request own rep num per_page page = (PullFiles own rep num per_page page, json_accept)"

section \<open>Examples\<close>

text \<open>
  The parses the platform's URL constructor gives for the URLs of the examples: the
  host name, and the path up to the query.  Any other string is taken as not a URL.
\<close>

definition example_URL :: "jstring \<Rightarrow> url option" where
  "example_URL s =
     map_of
       [(lit ''https://github.com/acme/widgets/pull/42'',
         \<lparr>hostname = lit ''github.com'', pathname = lit ''/acme/widgets/pull/42''\<rparr>),
        (lit ''https://github.com/wei/pull/pull/123'',
         \<lparr>hostname = lit ''github.com'', pathname = lit ''/wei/pull/pull/123''\<rparr>),
        (lit ''https://github.com/acme/pull/5/pull/6'',
         \<lparr>hostname = lit ''github.com'', pathname = lit ''/acme/pull/5/pull/6''\<rparr>),
        (lit ''https://github.com/a/b/c/pull/5/files?w=1'',
         \<lparr>hostname = lit ''github.com'', pathname = lit ''/a/b/c/pull/5/files''\<rparr>),
        (lit ''https://gitlab.com/acme/widgets/pull/42'',
         \<lparr>hostname = lit ''gitlab.com'', pathname = lit ''/acme/widgets/pull/42''\<rparr>)]
       s"

text \<open>
  The pull request \<open>https://github.com/acme/widgets/pull/42\<close> of the end-to-end
  scenario: the members of its metadata that the scenario lists, the metadata as the
  upstream sends it (the listed members and the \<open>html_url\<close> of the pull request,
  which is what the summary prints after \<open>PR:\<close>), two file-change records, and its
  diff.
\<close>

definition scenario_url :: jstring where
  "scenario_url = lit ''https://github.com/acme/widgets/pull/42''"

definition scenario_ref :: pr_ref where
  "scenario_ref = \<lparr>owner = lit ''acme'', repo = lit ''widgets'', number = lit ''42''\<rparr>"

definition scenario_metadata :: "(jstring \<times> json) list" where
  "scenario_metadata =
     [(lit ''title'', JStr (lit ''Fix bug'')),
      (lit ''user'', JObj [(lit ''login'', JStr (lit ''alice''))]),
      (lit ''state'', JStr (lit ''open'')),
      (lit ''draft'', JBool False),
      (lit ''merged'', JBool False),
      (lit ''base'', JObj [(lit ''ref'', JStr (lit ''main''))]),
      (lit ''head'', JObj [(lit ''ref'', JStr (lit ''fix''))]),
      (lit ''commits'', JNum 3),
      (lit ''changed_files'', JNum 2),
      (lit ''additions'', JNum 10),
      (lit ''deletions'', JNum 4),
      (lit ''body'', JStr (lit ''Fixes #1''))]"

definition scenario_pr :: json where
  "scenario_pr = JObj ((lit ''html_url'', JStr scenario_url) # scenario_metadata)"

definition scenario_files :: "json list" where
  "scenario_files =
     [JObj [(lit ''filename'', JStr (lit ''src/widget.js'')),
            (lit ''status'', JStr (lit ''modified'')),
            (lit ''additions'', JNum 7),
            (lit ''deletions'', JNum 4),
            (lit ''patch'', JStr (lit ''@@ -1 +1 @@'' @ nl @ lit ''-old'' @ nl @ lit ''+new''))],
      JObj [(lit ''filename'', JStr (lit ''README.md'')),
            (lit ''status'', JStr (lit ''modified'')),
            (lit ''additions'', JNum 3),
            (lit ''deletions'', JNum 0)]]"

definition scenario_diff :: jstring where
  "scenario_diff = lit ''diff --git a/src/widget.js b/src/widget.js''"

definition scenario_upstream :: upstream where
  "scenario_upstream =
     mock_upstream (lit ''acme'') (lit ''widgets'') (lit ''42'')
       scenario_pr scenario_files scenario_diff"

section \<open>Notions the properties are stated with\<close>

text \<open>The truncation notice both diff-returning tools print, for a cap \<open>C\<close> and a
  diff of length \<open>L\<close>.\<close>

definition truncation_notice :: "nat \<Rightarrow> nat \<Rightarrow> jstring" where
  "truncation_notice C L =
     lit ''(truncado a '' @ String_nat C @ lit '' chars de '' @ String_nat L @ lit '')''"

text \<open>The request for the metadata of a pull request, and the request for its diff.\<close>

definition pull_request :: "pr_ref \<Rightarrow> request" where
  "pull_request ref = (Pull (owner ref) (repo ref) (number ref), json_accept)"

definition diff_request :: "pr_ref \<Rightarrow> request" where
  "diff_request ref = (Pull (owner ref) (repo ref) (number ref), diff_accept)"

text \<open>
  A run (the requests sent, in order, with the result) that started after the requests
  \<open>log0\<close> aborts on an upstream error when every request of the run that the upstream
  answers with a status outside 200..299 is the last request of the run, and the result
  is the thrown error carrying the status and the body of that response.
\<close>

definition aborts_on_upstream_error ::
  "upstream \<Rightarrow> request list \<Rightarrow> request list \<times> (js_error + 'a) \<Rightarrow> bool" where
  "aborts_on_upstream_error up log0 run \<longleftrightarrow>
     (\<exists>new. fst run = log0 @ new \<and>
        (\<forall>pre req post resp.
           new = pre @ req # post \<and> up (log0 @ pre) req = Inr resp \<and> \<not> ok resp \<longrightarrow>
           post = [] \<and> snd run = Inl (api_error resp)))"

text \<open>A file-change record with a patch, for the examples.\<close>

definition example_file :: json where
  "example_file =
     JObj [(lit ''filename'', JStr (lit ''a.txt'')),
           (lit ''status'', JStr (lit ''added'')),
           (lit ''additions'', JNum 2),
           (lit ''deletions'', JNum 0),
           (lit ''patch'', JStr (lit ''+a'' @ nl @ lit ''+b''))]"

section \<open>String literals\<close>

lemma unat_of_char: "unat (of_char c :: 16 word) = of_char c"
proof -
  have "(of_char c :: nat) < 256" by (rule nat_of_char_less_256)
  also have "(256 :: nat) \<le> 2 ^ 16" by simp
  finally have m: "(of_char c :: nat) mod 2 ^ 16 = of_char c" by (rule mod_less)
  have u: "unat (word_of_nat n :: 16 word) = n mod 2 ^ 16" for n by (simp add: unat_of_nat)
  have "unat (of_char c :: 16 word) = unat (word_of_nat (of_char c) :: 16 word)"
    by (simp only: of_nat_of_char)
  also have "\<dots> = of_char c" by (simp only: u m)
  finally show ?thesis .
qed

lemma of_char_word_inj: "(of_char c :: 16 word) = of_char d \<longleftrightarrow> c = d"
proof
  assume "(of_char c :: 16 word) = of_char d"
  then have "unat (of_char c :: 16 word) = unat (of_char d :: 16 word)" by simp
  then have "(of_char c :: nat) = of_char d" by (simp only: unat_of_char)
  then show "c = d" by simp
qed simp

lemma lit_eq_iff [simp]: "lit a = lit b \<longleftrightarrow> a = b"
  unfolding lit_def by (rule inj_map_eq_map) (simp add: inj_def of_char_word_inj)

lemma lit_Nil [simp]: "lit [] = []"
  by (simp add: lit_def)

lemma length_lit [simp]: "length (lit a) = length a"
  by (simp add: lit_def)

lemma lit_is_Nil [simp]: "lit a = [] \<longleftrightarrow> a = []"
  by (simp add: lit_def)

lemma lit_append: "lit (a @ b) = lit a @ lit b"
  by (simp add: lit_def)

lemma lit_Cons: "lit (c # s) = of_char c # lit s"
  by (simp add: lit_def)

text \<open>Rules that compute with literals: every string built from literals becomes one
  literal, and two literals are compared character by character.\<close>

lemma lit_lit: "lit a @ lit b = lit (a @ b)" "lit a @ lit b @ x = lit (a @ b) @ x"
  by (simp_all add: lit_def)

lemma nl_lit: "nl = lit [CHR 0x0A]"
  by (simp add: nl_def)

lemma take_lit: "take n (lit s) = lit (take n s)"
  by (simp add: lit_def take_map)

lemma String_nat_numeral:
  "String_nat (numeral k) = lit (dec (numeral k))" "String_nat 0 = lit ''0''"
  by (simp_all add: String_nat_def dec.simps)

lemma split_on_lit: "split_on (of_char c) (lit s) = map lit (split_on c s)"
  by (induction s) (auto simp: lit_def of_char_word_inj split: list.splits)

lemma path_parts_lit: "path_parts (lit s) = map lit (filter (\<lambda>p. p \<noteq> []) (split_on CHR ''/'' s))"
proof -
  have "filter (\<lambda>s. s \<noteq> []) (map lit xs) = map lit (filter (\<lambda>p. p \<noteq> []) xs)" for xs
    by (induction xs) (simp_all add: lit_def)
  then show ?thesis by (simp only: path_parts_def split_on_lit)
qed

lemma indent_patch_lit:
  "indent_patch (lit s) =
     lit (concat (map (\<lambda>c. if c = CHR 0x0A then [CHR 0x0A, CHR '' '', CHR '' ''] else [c]) s))"
proof -
  have "(of_char a :: 16 word) = 10 \<longleftrightarrow> a = CHR 0x0A" for a
    using of_char_word_inj [of a "CHR 0x0A"] by simp
  then show ?thesis
    by (induction s) (simp_all add: indent_patch_def nl_def lit_def)
qed

lemmas lit_eval = lit_lit nl_lit take_lit String_nat_numeral indent_patch_lit

section \<open>Decimal digits\<close>

text \<open>The digits printed for a number denote that number.\<close>

lemma digit_char:
  assumes "n < 10"
  shows "of_char (''0123456789'' ! n) = 48 + n"
proof -
  have table: "map of_char ''0123456789'' = map ((+) 48) [0 ..< 10 :: nat]"
    by code_simp
  have len: "length ''0123456789'' = 10"
    by code_simp
  have "map of_char ''0123456789'' ! n = (of_char (''0123456789'' ! n) :: nat)"
    by (rule nth_map) (simp only: len assms)
  moreover have "map ((+) 48) [0 ..< 10 :: nat] ! n = 48 + n"
    using assms by simp
  ultimately show ?thesis by (simp only: table)
qed

lemma dec_value_dec: "dec_value (dec n) = n"
proof (induction n rule: dec.induct)
  case (1 n)
  show ?case
  proof (cases "n < 10")
    case True
    then show ?thesis by (subst dec.simps) (simp add: dec_value_def digit_char)
  next
    case False
    with 1 have "dec_value (dec (n div 10)) = n div 10" by simp
    with False show ?thesis
      by (subst dec.simps) (simp add: dec_value_def digit_char)
  qed
qed


section \<open>Properties of the paginated file listing\<close>

subsection \<open>Against the mock\<close>

lemma ghFetchJson_mock_files:
  "ghFetchJson (mock_upstream own rep num pr items diff) (PullFiles own rep num pp p) log =
     (log @ [page_request own rep num pp p], Inr (JArr (github_pages items pp p)))"
  by (simp add: ghFetchJson_def mock_upstream_def json_response_def ok_def page_request_def)

lemma files_loop_mock:
  assumes "0 < S" and "k \<le> q" and "S * k \<le> length items"
  shows "files_loop (mock_upstream own rep num pr items diff) own rep num (S * q) S (Suc k)
           (take (S * k) items) log =
         (log @ map (page_request own rep num S)
                  [Suc k ..< Suc (if S * q \<le> length items then q else length items div S + 1)],
          Inr (take (S * q) items))"
  using assms
proof (induction "q - k" arbitrary: k log rule: less_induct)
  case less
  let ?P = "length items"
  let ?n = "if S * q \<le> ?P then q else ?P div S + 1"
  have len: "min (length items) (S * k) = S * k" using less.prems by simp
  show ?case
  proof (cases "k < q")
    case False
    with less.prems have kq: "k = q" by simp
    with less.prems have "S * q \<le> ?P" by simp
    then show ?thesis using kq by (simp add: files_loop.simps [of _ _ _ _ "S * q"])
  next
    case True
    then have Sk: "S * k < S * q" using less.prems(1) by simp
    have "S * Suc k \<le> S * q" using True by (metis Suc_leI mult_le_mono2)
    then have cpp: "min S (S * q - S * k) = S" by (simp add: min_def)
    let ?b = "github_pages items S (Suc k)"
    have b: "?b = take S (drop (S * k) items)" by (simp add: github_pages_def mult.commute)
    have lb: "length ?b = min S (?P - S * k)" by (simp add: b)
    have step: "files_loop (mock_upstream own rep num pr items diff) own rep num (S * q) S (Suc k)
           (take (S * k) items) log =
         (if ?b = [] then (log @ [page_request own rep num S (Suc k)], Inr (take (S * k) items))
          else if length ?b < S then (log @ [page_request own rep num S (Suc k)], Inr (take (S * k) items @ ?b))
          else files_loop (mock_upstream own rep num pr items diff) own rep num (S * q) S (Suc (Suc k))
                 (take (S * k) items @ ?b) (log @ [page_request own rep num S (Suc k)]))"
      using Sk by (subst files_loop.simps) (simp add: len cpp ghFetchJson_mock_files Let_def)
    have app: "take (S * k) items @ ?b = take (S * Suc k) items"
      by (simp add: b take_add [symmetric] add.commute)
    consider (empty) "?P = S * k" | (short) "S * k < ?P" "?P < S * Suc k" | (full) "S * Suc k \<le> ?P"
      using less.prems(3) by force
    then show ?thesis
    proof cases
      case empty
      then have "?b = []" by (simp add: b)
      moreover have "\<not> S * q \<le> ?P" using empty Sk by simp
      moreover have "?P div S = k" using empty less.prems(1) by simp
      moreover have "take (S * q) items = items" "take (S * k) items = items" using empty Sk by simp_all
      ultimately show ?thesis unfolding step by simp
    next
      case short
      then have "?b \<noteq> []" by (simp add: b)
      moreover have "length ?b < S" using short by (simp add: lb)
      moreover have nle: "\<not> S * q \<le> ?P" using short \<open>S * Suc k \<le> S * q\<close> by simp
      moreover have "?P div S = k" using short less.prems(1)
        by (metis div_nat_eqI less_imp_le_nat)
      moreover have "take (S * q) items = items" "take (S * Suc k) items = items" using short nle by simp_all
      ultimately show ?thesis unfolding step app by simp
    next
      case full
      then have "?b \<noteq> []" using less.prems(1) by (simp add: b) 
      moreover have "\<not> length ?b < S" using full by (simp add: lb)
      moreover have ih: "files_loop (mock_upstream own rep num pr items diff) own rep num (S * q) S (Suc (Suc k))
           (take (S * Suc k) items) (log @ [page_request own rep num S (Suc k)]) =
         ((log @ [page_request own rep num S (Suc k)]) @ map (page_request own rep num S)
                  [Suc (Suc k) ..< Suc ?n],
          Inr (take (S * q) items))"
        using True full less.prems(1) by (intro less.hyps) auto
      moreover have "Suc k \<le> ?n"
      proof (cases "S * q \<le> ?P")
        case True then show ?thesis using \<open>k < q\<close> by simp
      next
        case False
        have "Suc k \<le> ?P div S" using full less.prems(1)
          by (metis div_le_mono nonzero_mult_div_cancel_left less_numeral_extra(3))
        then show ?thesis using False by simp
      qed
      then have "[Suc k ..< Suc ?n] = Suc k # [Suc (Suc k) ..< Suc ?n]"
        by (simp add: upt_conv_Cons)
      ultimately show ?thesis unfolding step app by (simp del: upt_Suc)
    qed
  qed
qed

lemma ceil_div:
  assumes "0 < (S::nat)"
  shows "(P + S - 1) div S = P div S + (if S dvd P then 0 else 1)"
proof -
  define a r where "a = P div S" and "r = P mod S"
  obtain s where S: "S = Suc s" using assms by (cases S) auto
  have P: "P = r + a * S" by (simp add: a_def r_def)
  have r: "r < S" using assms by (simp add: r_def)
  have d: "S dvd P \<longleftrightarrow> r = 0" by (simp add: r_def dvd_eq_mod_eq_0)
  show ?thesis
  proof (cases "r = 0")
    case True
    then have "P + S - 1 = s + a * S" using P S by simp
    moreover have "(s + a * S) div S = s div S + a" using assms by simp
    moreover have "s div S = 0" using S by simp
    ultimately show ?thesis using d True by (simp add: a_def)
  next
    case False
    then obtain r' where r': "r = Suc r'" by (cases r) auto
    then have "P + S - 1 = r' + Suc a * S" using P S by simp
    moreover have "(r' + Suc a * S) div S = Suc a + r' div S"
    proof (rule div_mult_self1)
      show "S \<noteq> 0" using assms by simp
    qed
    moreover have "r' div S = 0" using r r' by simp
    ultimately show ?thesis using d False by (simp add: a_def)
  qed
qed

lemma pages_count:
  assumes "0 < (S::nat)"
  shows "(if S * q \<le> P then q else P div S + 1) =
         (min P (S * q) + S - 1) div S + (if P < S * q \<and> S dvd P then 1 else 0)"
proof (cases "S * q \<le> P")
  case True
  then have "min P (S * q) = S * q" by simp
  then show ?thesis using True assms by (simp add: ceil_div del: One_nat_def)
next
  case False
  then have "min P (S * q) = P" by simp
  then show ?thesis using False assms by (simp add: ceil_div del: One_nat_def)
qed

lemma listPrFilesPaginated_length:
  "listPrFilesPaginated up own rep num M log0 = (log1, Inr files) \<Longrightarrow> length files \<le> M"
  by (auto simp: listPrFilesPaginated_def split: prod.splits sum.splits)

lemma listPrFilesPaginated_mock:
  assumes "0 < S" and "0 < q" and "S = min 100 (max 1 (S * q))"
  shows "listPrFilesPaginated (mock_upstream own rep num pr items diff) own rep num (S * q) log =
         (log @ map (page_request own rep num S)
                  [1 ..< Suc (if S * q \<le> length items then q else length items div S + 1)],
          Inr (take (S * q) items))"
proof -
  have "files_loop (mock_upstream own rep num pr items diff) own rep num (S * q) S (Suc 0)
           (take (S * 0) items) log =
         (log @ map (page_request own rep num S)
                  [Suc 0 ..< Suc (if S * q \<le> length items then q else length items div S + 1)],
          Inr (take (S * q) items))"
    using assms(1) by (intro files_loop_mock) simp_all
  then show ?thesis
    using assms(3) by (simp add: listPrFilesPaginated_def del: upt_Suc)
qed


text \<open>
  Claim C1, as amended.  Whatever the upstream answers, \<open>listPrFilesPaginated\<close> returns
  at most \<open>max_files\<close> records.  Against the mock holding \<open>P\<close> records, when
  \<open>M = max_files\<close> is at least 1 and every page is requested with the same size
  \<open>S = min 100 M\<close> (that is, \<open>M \<le> 100\<close> or \<open>M\<close> a multiple of 100), it returns
  the first \<open>min P M\<close> records and requests the pages \<open>1, 2, ...\<close> of size \<open>S\<close>
  in order: \<open>\<lceil>min P M / S\<rceil>\<close> of them, and one more, answered by an empty page, when
  the records run out before \<open>M\<close> on a page boundary (\<open>P < M\<close> and \<open>S\<close> divides
  \<open>P\<close>).
\<close>

theorem listPrFilesPaginated_pages:
  "(\<forall>up log0 log1 files.
      listPrFilesPaginated up own rep num M log0 = (log1, Inr files) \<longrightarrow> length files \<le> M) \<and>
   (1 \<le> M \<and> (M \<le> 100 \<or> 100 dvd M) \<longrightarrow>
      listPrFilesPaginated (mock_upstream own rep num pr items diff) own rep num M log =
        (log @ map (page_request own rep num (min 100 M))
                 [1 ..< Suc ((min (length items) M + min 100 M - 1) div min 100 M +
                             (if length items < M \<and> min 100 M dvd length items then 1 else 0))],
         Inr (take M items)) \<and>
      length (take M items) = min (length items) M)"
proof (intro conjI allI impI)
  fix up log0 log1 files
  assume "listPrFilesPaginated up own rep num M log0 = (log1, Inr files)"
  then show "length files \<le> M" by (rule listPrFilesPaginated_length)
next
  assume M: "1 \<le> M \<and> (M \<le> 100 \<or> 100 dvd M)"
  define S where "S = min 100 M"
  define q where "q = M div S"
  have S: "0 < S" using M by (simp add: S_def)
  have Mq: "M = S * q" using M by (auto simp: S_def q_def min_def)
  have q: "0 < q" using M Mq by (cases q) auto
  have pp: "S = min 100 (max 1 (S * q))" using M Mq [symmetric] by (simp add: S_def)
  have "listPrFilesPaginated (mock_upstream own rep num pr items diff) own rep num (S * q) log =
        (log @ map (page_request own rep num S)
                 [1 ..< Suc ((min (length items) (S * q) + S - 1) div S +
                             (if length items < S * q \<and> S dvd length items then 1 else 0))],
         Inr (take (S * q) items))"
    using listPrFilesPaginated_mock [OF S q pp, of own rep num pr items diff log]
    by (simp only: pages_count [OF S])
  then show "listPrFilesPaginated (mock_upstream own rep num pr items diff) own rep num M log =
        (log @ map (page_request own rep num (min 100 M))
                 [1 ..< Suc ((min (length items) M + min 100 M - 1) div min 100 M +
                             (if length items < M \<and> min 100 M dvd length items then 1 else 0))],
         Inr (take M items))"
    unfolding S_def [symmetric] by (simp only: Mq [symmetric])
next
  show "length (take M items) = min (length items) M" by simp
qed

text \<open>With three records upstream and \<open>max_files = 2\<close>: one request, the first two
  records.\<close>

theorem listPrFilesPaginated_pages_witness:
  "listPrFilesPaginated (mock_upstream (lit ''acme'') (lit ''widgets'') (lit ''42'') JNull
       [JNum 1, JNum 2, JNum 3] []) (lit ''acme'') (lit ''widgets'') (lit ''42'') 2 [] =
     ([page_request (lit ''acme'') (lit ''widgets'') (lit ''42'') 2 1], Inr [JNum 1, JNum 2])"
  using listPrFilesPaginated_pages [of "lit ''acme''" "lit ''widgets''" "lit ''42''" 2 JNull
      "[JNum 1, JNum 2, JNum 3]" "[]" "[]"]
  by simp

text \<open>
  Claim C1 as stated fails: with 100 records upstream and \<open>max_files = 200\<close> the first
  page is full, so a second page is requested and comes back empty: two requests, where
  \<open>\<lceil>min P M / S\<rceil> = \<lceil>100 / 100\<rceil> = 1\<close>.
\<close>

theorem listPrFilesPaginated_extra_request:
  "listPrFilesPaginated
     (mock_upstream (lit ''acme'') (lit ''widgets'') (lit ''42'') JNull (replicate 100 JNull) [])
     (lit ''acme'') (lit ''widgets'') (lit ''42'') 200 [] =
     ([page_request (lit ''acme'') (lit ''widgets'') (lit ''42'') 100 1,
       page_request (lit ''acme'') (lit ''widgets'') (lit ''42'') 100 2],
      Inr (replicate 100 JNull)) \<and>
   (min (length (replicate 100 JNull)) 200 + 100 - 1) div 100 = (1::nat)"
  using listPrFilesPaginated_mock [of 100 2 "lit ''acme''" "lit ''widgets''" "lit ''42''" JNull
      "replicate 100 JNull" "[]" "[]"]
  by (simp add: upt_rec numeral_2_eq_2)

text \<open>
  When \<open>max_files\<close> is above 100 and not a multiple of 100, the last request asks
  for fewer records per page and keeps the page counter.  With 100 records upstream and
  \<open>max_files = 150\<close> the second request is page 2 of size 50, which is the records
  50 to 99.
\<close>

lemma listPrFilesPaginated_smaller_last_page:
  assumes "length items = 100"
  shows "listPrFilesPaginated (mock_upstream own rep num pr items diff) own rep num 150 log =
           (log @ [page_request own rep num 100 1, page_request own rep num 50 2],
            Inr (items @ drop 50 items))"
proof -
  let ?up = "mock_upstream own rep num pr items diff"
  let ?log1 = "log @ [page_request own rep num 100 (Suc 0)]"
  let ?log2 = "?log1 @ [page_request own rep num 50 (Suc (Suc 0))]"
  have p1: "github_pages items 100 (Suc 0) = items"
    and p2: "github_pages items 50 (Suc (Suc 0)) = drop 50 items"
    using assms by (simp_all add: github_pages_def)
  have ne: "items \<noteq> []" "drop 50 items \<noteq> []"
    using assms by auto
  have third: "files_loop ?up own rep num 150 100 p (items @ drop 50 items) l =
        (l, Inr (items @ drop 50 items))" for p l
    using assms by (subst files_loop.simps) simp
  have second: "files_loop ?up own rep num 150 100 (Suc (Suc 0)) items ?log1 =
        (?log2, Inr (items @ drop 50 items))"
    using assms
    by (subst files_loop.simps) (simp add: ghFetchJson_mock_files p2 third ne Let_def)
  have "files_loop ?up own rep num 150 100 (Suc 0) [] log =
        (?log2, Inr (items @ drop 50 items))"
    using assms
    by (subst files_loop.simps) (simp add: ghFetchJson_mock_files p1 second ne Let_def)
  then show ?thesis
    using assms by (simp add: listPrFilesPaginated_def numeral_2_eq_2)
qed

subsection \<open>Against any upstream\<close>

text \<open>
  Claim C5.  When the answer to the first page request (page 1, of size
  \<open>min 100 max_files\<close>) is a non-empty array shorter than the size requested,
  \<open>listPrFilesPaginated\<close> sends that one request and returns the records of that page.
\<close>

theorem listPrFilesPaginated_short_first_page:
  assumes "up log (page_request own rep num (min 100 M) 1) = Inr resp"
    and "ok resp" and "body_json resp = Some (JArr b)"
    and "b \<noteq> []" and "length b < min 100 M"
  shows "listPrFilesPaginated up own rep num M log =
           (log @ [page_request own rep num (min 100 M) 1], Inr b)"
proof -
  from assms(5) have M: "0 < M" by simp
  then have pp: "min (min 100 (max 1 M)) M = min 100 M" by simp
  from assms(5) have lt: "length b < M" by simp
  show ?thesis
    using assms M lt
    by (simp add: listPrFilesPaginated_def files_loop.simps [of _ _ _ _ _ _ _ "[]"] pp
        ghFetchJson_def page_request_def Let_def)
qed

text \<open>Two records upstream and the default \<open>max_files = 50\<close>: the first page has 2 of
  the 50 records asked for.\<close>

theorem listPrFilesPaginated_short_first_page_witness:
  "listPrFilesPaginated (mock_upstream (lit ''acme'') (lit ''widgets'') (lit ''42'') JNull
       [JNum 1, JNum 2] []) (lit ''acme'') (lit ''widgets'') (lit ''42'') 50 [] =
     ([page_request (lit ''acme'') (lit ''widgets'') (lit ''42'') 50 1], Inr [JNum 1, JNum 2])"
  using listPrFilesPaginated_short_first_page [of
      "mock_upstream (lit ''acme'') (lit ''widgets'') (lit ''42'') JNull [JNum 1, JNum 2] []"
      "[]" "lit ''acme''" "lit ''widgets''" "lit ''42''" 50
      "json_response (JArr [JNum 1, JNum 2])" "[JNum 1, JNum 2]"]
  by (simp add: mock_upstream_def page_request_def json_response_def ok_def github_pages_def)

text \<open>
  Claim C6.  With \<open>max_files = 0\<close> the loop is not entered: no request is sent and the
  result is the empty sequence, whatever the upstream.
\<close>

theorem listPrFilesPaginated_zero:
  "listPrFilesPaginated up own rep num 0 log = (log, Inr [])"
  by (simp add: listPrFilesPaginated_def files_loop.simps)

section \<open>Properties of the tools\<close>

subsection \<open>The example scenario, step by step\<close>

lemma parse_scenario: "parsePrUrl example_URL scenario_url = Inr scenario_ref"
  by (simp add: parsePrUrl_def example_URL_def scenario_url_def path_parts_lit at_index_def
      falsy_def scenario_ref_def Let_def)

lemma scenario_pr_fetch:
  "ghFetchJson scenario_upstream (Pull (lit ''acme'') (lit ''widgets'') (lit ''42'')) [] =
     ([pull_request scenario_ref], Inr scenario_pr)"
  by (simp add: ghFetchJson_def scenario_upstream_def mock_upstream_def json_response_def ok_def
      pull_request_def scenario_ref_def json_accept_def diff_accept_def)

lemma scenario_files_fetch:
  "listPrFilesPaginated scenario_upstream (lit ''acme'') (lit ''widgets'') (lit ''42'') 50 log =
     (log @ [page_request (lit ''acme'') (lit ''widgets'') (lit ''42'') 50 1], Inr scenario_files)"
  using listPrFilesPaginated_mock [of 50 1 "lit ''acme''" "lit ''widgets''" "lit ''42''"
      scenario_pr scenario_files scenario_diff log]
  by (simp add: scenario_upstream_def) (simp add: scenario_files_def)

lemma scenario_file_lines:
  "map_result (file_line True 2000) scenario_files =
     Inr [lit ''- src/widget.js (+7/-4) [modified]'' @ nl @ lit ''  patch:'' @ nl @
          lit ''@@ -1 +1 @@'' @ nl @ lit ''  -old'' @ nl @ lit ''  +new'',
          lit ''- README.md (+3/-0) [modified]'']"
  by (simp add: scenario_files_def file_line_def file_base_def get_prop_def template_def
      truthy_def String_int_def dec.simps lit_eval Let_def)

lemma scenario_summary_text:
  "summary_text scenario_pr 50 ls =
     lit ''PR: https://github.com/acme/widgets/pull/42'' @ nl @
     lit ''Title: Fix bug'' @ nl @
     lit ''Author: alice'' @ nl @
     lit ''State: open | Draft: no | Merged: no'' @ nl @
     lit ''Base: main <- Head: fix'' @ nl @
     lit ''Commits: 3 | Files changed: 2 | Additions: 10 | Deletions: 4'' @ nl @
     nl @
     lit ''Description (body):'' @ nl @
     lit ''Fixes #1'' @ nl @
     nl @
     lit ''Changed files (up to 50):'' @ nl @
     join (nl @ nl) ls"
  by (simp add: summary_text_def scenario_pr_def scenario_metadata_def scenario_url_def
      get_prop_def opt_prop_def template_def truthy_def yes_no_def String_int_def dec.simps
      lit_eval)

text \<open>Without the \<open>html_url\<close> member the first line of the summary names no URL.\<close>

lemma summary_text_without_html_url:
  "summary_text (JObj scenario_metadata) 50 ls =
     lit ''PR: undefined'' @ nl @
     lit ''Title: Fix bug'' @ nl @
     lit ''Author: alice'' @ nl @
     lit ''State: open | Draft: no | Merged: no'' @ nl @
     lit ''Base: main <- Head: fix'' @ nl @
     lit ''Commits: 3 | Files changed: 2 | Additions: 10 | Deletions: 4'' @ nl @
     nl @
     lit ''Description (body):'' @ nl @
     lit ''Fixes #1'' @ nl @
     nl @
     lit ''Changed files (up to 50):'' @ nl @
     join (nl @ nl) ls"
  by (simp add: summary_text_def scenario_metadata_def get_prop_def opt_prop_def template_def
      truthy_def yes_no_def String_int_def dec.simps lit_eval)


subsection \<open>Listing pull requests\<close>

text \<open>
  Claim C8.  When the upstream answers the one request of \<open>github_list_pull_requests\<close>
  with an empty array, the text of the tool's output is \<open>(no PRs)\<close>.
\<close>

theorem github_list_pull_requests_empty:
  assumes "up [] (RepoPulls own rep (default (lit ''open'') state_arg) (default 30 per_page_arg),
                  json_accept) = Inr resp"
    and "ok resp" and "body_json resp = Some (JArr [])"
  shows "github_list_pull_requests up own rep state_arg per_page_arg =
           ([(RepoPulls own rep (default (lit ''open'') state_arg) (default 30 per_page_arg),
              json_accept)],
            Inr (lit ''(no PRs)''))"
  using assms by (simp add: github_list_pull_requests_def ghFetchJson_def js_map_def Let_def)

text \<open>An upstream that answers every request with an empty array.\<close>

theorem github_list_pull_requests_empty_witness:
  "github_list_pull_requests (\<lambda>log req. Inr (json_response (JArr []))) (lit ''acme'')
       (lit ''widgets'') None None =
     ([(RepoPulls (lit ''acme'') (lit ''widgets'') (lit ''open'') 30, json_accept)],
      Inr (lit ''(no PRs)''))"
  using github_list_pull_requests_empty [of "\<lambda>log req. Inr (json_response (JArr []))"
      "lit ''acme''" "lit ''widgets''" None None "json_response (JArr [])"]
  by (simp add: json_response_def ok_def default_def)


subsection \<open>Truncating the diff\<close>

lemma get_diff_text:
  assumes "parsePrUrl new_URL pr_url = Inr ref"
    and "up [] (diff_request ref) = Inr resp" and "ok resp"
  shows "github_get_pull_request_diff new_URL up pr_url (Some C) =
           ([diff_request ref],
            Inr (lit ''PR Diff (unified) for '' @ pr_url @ nl @
                 (if 0 < C \<and> C < length (body_text resp)
                  then truncation_notice C (length (body_text resp)) @ nl @ nl @
                       take C (body_text resp)
                  else nl @ nl @ body_text resp)))"
  using assms
  by (simp add: github_get_pull_request_diff_def ghFetchText_def diff_request_def default_def
      truncation_notice_def Let_def)

lemma diff_block_cases:
  "diff_block C diff =
     nl @ nl @ lit ''Unified diff (global):'' @ nl @
     (if 0 < C \<and> C < length diff then truncation_notice C (length diff) @ nl @ take C diff
      else diff)"
  by (simp add: diff_block_def truncation_notice_def Let_def)

lemma summarize_with_diff:
  assumes "parsePrUrl new_URL pr_url = Inr ref"
    and "ghFetchJson up (Pull (owner ref) (repo ref) (number ref)) [] = (log1, Inr pr)"
    and "pr \<noteq> JNull"
    and "listPrFilesPaginated up (owner ref) (repo ref) (number ref) (default 50 max_files_arg) log1 =
           (log2, Inr files)"
    and "map_result (file_line (default True include_patches_arg)
           (default 2000 max_patch_chars_arg)) files = Inr fileLines"
    and "up log2 (diff_request ref) = Inr resp" and "ok resp"
  shows "github_summarize_pull_request new_URL up pr_url include_patches_arg max_files_arg
           max_patch_chars_arg (Some True) (Some C) =
           (log2 @ [diff_request ref],
            Inr (instructions @ summary_text pr (default 50 max_files_arg) fileLines @
                 diff_block C (body_text resp)))"
  using assms
  by (simp add: github_summarize_pull_request_def ghFetchText_def diff_request_def default_def
      Let_def)


text \<open>
  Claim C3.  Let the URL parse to \<open>ref\<close> and the upstream answer the diff request with
  the text \<open>diff\<close>; for the summary tool, called with \<open>include_diff\<close>, let the
  steps before the diff succeed.  With the cap \<open>C\<close> given as \<open>max_diff_chars\<close>:
  \<^item> if \<open>0 < C < length diff\<close>, both tools print the notice with \<open>C\<close> and the
    length of the diff and then the first \<open>C\<close> characters of the diff, a text of
    length exactly \<open>C\<close>;
  \<^item> if \<open>C = 0\<close>, or the diff is no longer than \<open>C\<close>, both print the whole diff
    and no notice.
\<close>

theorem diff_truncation:
  assumes "parsePrUrl new_URL pr_url = Inr ref"
    and "up [] (diff_request ref) = Inr resp" and "ok resp" and "body_text resp = diff"
    and "ghFetchJson up (Pull (owner ref) (repo ref) (number ref)) [] = (log1, Inr pr)"
    and "pr \<noteq> JNull"
    and "listPrFilesPaginated up (owner ref) (repo ref) (number ref) (default 50 max_files_arg)
           log1 = (log2, Inr files)"
    and "map_result (file_line (default True include_patches_arg)
           (default 2000 max_patch_chars_arg)) files = Inr fileLines"
    and "up log2 (diff_request ref) = Inr resp'" and "ok resp'" and "body_text resp' = diff"
  defines "head \<equiv> lit ''PR Diff (unified) for '' @ pr_url @ nl"
    and "head' \<equiv> instructions @ summary_text pr (default 50 max_files_arg) fileLines @ nl @ nl @
           lit ''Unified diff (global):'' @ nl"
  shows
    "(0 < C \<and> C < length diff \<longrightarrow>
        github_get_pull_request_diff new_URL up pr_url (Some C) =
          ([diff_request ref], Inr (head @ truncation_notice C (length diff) @ nl @ nl @ take C diff)) \<and>
        github_summarize_pull_request new_URL up pr_url include_patches_arg max_files_arg
            max_patch_chars_arg (Some True) (Some C) =
          (log2 @ [diff_request ref],
           Inr (head' @ truncation_notice C (length diff) @ nl @ take C diff)) \<and>
        length (take C diff) = C) \<and>
     (C = 0 \<or> length diff \<le> C \<longrightarrow>
        github_get_pull_request_diff new_URL up pr_url (Some C) =
          ([diff_request ref], Inr (head @ nl @ nl @ diff)) \<and>
        github_summarize_pull_request new_URL up pr_url include_patches_arg max_files_arg
            max_patch_chars_arg (Some True) (Some C) =
          (log2 @ [diff_request ref], Inr (head' @ diff)))"
proof -
  have one: "github_get_pull_request_diff new_URL up pr_url (Some C) =
           ([diff_request ref],
            Inr (head @
                 (if 0 < C \<and> C < length diff
                  then truncation_notice C (length diff) @ nl @ nl @ take C diff
                  else nl @ nl @ diff)))"
    using get_diff_text [of new_URL pr_url ref up resp C] assms(1-4) by (simp add: head_def)
  have two: "github_summarize_pull_request new_URL up pr_url include_patches_arg max_files_arg
            max_patch_chars_arg (Some True) (Some C) =
          (log2 @ [diff_request ref],
           Inr (head' @
                (if 0 < C \<and> C < length diff
                 then truncation_notice C (length diff) @ nl @ take C diff else diff)))"
    using summarize_with_diff [of new_URL pr_url ref up log1 pr max_files_arg log2 files
        include_patches_arg max_patch_chars_arg fileLines resp' C] assms(1,5-11)
    by (simp add: diff_block_cases head'_def)
  show ?thesis
    by (auto simp: one two)
qed

text \<open>The diff of the example has 42 characters: cut to 10 with a notice, whole with
  the cap 0.\<close>

theorem diff_truncation_witness:
  "github_get_pull_request_diff example_URL scenario_upstream scenario_url (Some 10) =
     ([diff_request scenario_ref],
      Inr (lit ''PR Diff (unified) for https://github.com/acme/widgets/pull/42'' @ nl @
           lit ''(truncado a 10 chars de 42)'' @ nl @ nl @ lit ''diff --git'')) \<and>
   github_get_pull_request_diff example_URL scenario_upstream scenario_url (Some 0) =
     ([diff_request scenario_ref],
      Inr (lit ''PR Diff (unified) for https://github.com/acme/widgets/pull/42'' @ nl @ nl @ nl @
           scenario_diff)) \<and>
   snd (github_summarize_pull_request example_URL scenario_upstream scenario_url
          None None None (Some True) (Some 10)) =
     Inr (instructions @
          summary_text scenario_pr 50
            [lit ''- src/widget.js (+7/-4) [modified]'' @ nl @ lit ''  patch:'' @ nl @
             lit ''@@ -1 +1 @@'' @ nl @ lit ''  -old'' @ nl @ lit ''  +new'',
             lit ''- README.md (+3/-0) [modified]''] @
          nl @ nl @ lit ''Unified diff (global):'' @ nl @
          lit ''(truncado a 10 chars de 42)'' @ nl @ lit ''diff --git'')"
proof -
  note t = diff_truncation [OF parse_scenario, of scenario_upstream "text_response scenario_diff"
    scenario_diff "[pull_request scenario_ref]" scenario_pr None
    "[pull_request scenario_ref, page_request (lit ''acme'') (lit ''widgets'') (lit ''42'') 50 1]"
    scenario_files None None _ "text_response scenario_diff"]
  have up: "scenario_upstream log (diff_request scenario_ref) = Inr (text_response scenario_diff)"
    for log
    by (simp add: scenario_upstream_def mock_upstream_def diff_request_def scenario_ref_def)
  have okr: "ok (text_response scenario_diff)" "body_text (text_response scenario_diff) = scenario_diff"
    by (simp_all add: ok_def text_response_def)
  have pr: "ghFetchJson scenario_upstream (Pull (owner scenario_ref) (repo scenario_ref)
      (number scenario_ref)) [] = ([pull_request scenario_ref], Inr scenario_pr)"
    using scenario_pr_fetch by (simp add: scenario_ref_def)
  have nn: "scenario_pr \<noteq> JNull" by (simp add: scenario_pr_def)
  have fs: "listPrFilesPaginated scenario_upstream (owner scenario_ref) (repo scenario_ref)
      (number scenario_ref) (default 50 None) [pull_request scenario_ref] =
    ([pull_request scenario_ref, page_request (lit ''acme'') (lit ''widgets'') (lit ''42'') 50 1],
     Inr scenario_files)"
    using scenario_files_fetch [of "[pull_request scenario_ref]"]
    by (simp add: scenario_ref_def default_def)
  have ls: "map_result (file_line (default True None) (default 2000 None)) scenario_files =
      Inr [lit ''- src/widget.js (+7/-4) [modified]'' @ nl @ lit ''  patch:'' @ nl @
          lit ''@@ -1 +1 @@'' @ nl @ lit ''  -old'' @ nl @ lit ''  +new'',
          lit ''- README.md (+3/-0) [modified]'']"
    using scenario_file_lines by (simp add: default_def)
  have len: "length scenario_diff = 42" by (simp add: scenario_diff_def)
  have cut: "take 10 scenario_diff = lit ''diff --git''" by (simp add: scenario_diff_def lit_eval)
  have notice: "truncation_notice 10 42 = lit ''(truncado a 10 chars de 42)''"
    by (simp add: truncation_notice_def lit_eval dec.simps)
  from t [OF up okr pr nn fs ls up okr, of 10] t [OF up okr pr nn fs ls up okr, of 0]
  show ?thesis
    by (simp add: len cut notice scenario_url_def default_def lit_lit)
qed


subsection \<open>The summary of the example pull request\<close>

lemma scenario_summary_steps:
  "github_summarize_pull_request example_URL scenario_upstream scenario_url None None None None None =
     ([pull_request scenario_ref, page_request (lit ''acme'') (lit ''widgets'') (lit ''42'') 50 1],
      Inr (instructions @
           summary_text scenario_pr 50
             [lit ''- src/widget.js (+7/-4) [modified]'' @ nl @ lit ''  patch:'' @ nl @
              lit ''@@ -1 +1 @@'' @ nl @ lit ''  -old'' @ nl @ lit ''  +new'',
              lit ''- README.md (+3/-0) [modified]'']))"
proof -
  have pr: "ghFetchJson scenario_upstream (Pull (owner scenario_ref) (repo scenario_ref)
      (number scenario_ref)) [] = ([pull_request scenario_ref], Inr scenario_pr)"
    using scenario_pr_fetch by (simp add: scenario_ref_def)
  have nn: "scenario_pr \<noteq> JNull" by (simp add: scenario_pr_def)
  have fs: "listPrFilesPaginated scenario_upstream (owner scenario_ref) (repo scenario_ref)
      (number scenario_ref) 50 [pull_request scenario_ref] =
    ([pull_request scenario_ref, page_request (lit ''acme'') (lit ''widgets'') (lit ''42'') 50 1],
     Inr scenario_files)"
    using scenario_files_fetch [of "[pull_request scenario_ref]"]
    by (simp add: scenario_ref_def)
  show ?thesis
    by (simp add: github_summarize_pull_request_def default_def parse_scenario pr nn fs
        scenario_file_lines)
qed

text \<open>
  Claim C4, as amended.  For the pull request \<open>https://github.com/acme/widgets/pull/42\<close>
  with the metadata of the scenario, the text of \<open>github_summarize_pull_request\<close>
  begins with the fixed instruction sentence and a blank line; then come, each on its
  own line and in this order, \<open>PR:\<close> with the \<open>html_url\<close> of the metadata,
  \<open>Title: Fix bug\<close>, \<open>Author: alice\<close>, the state/draft/merged line, the base/head
  line, the counts line, a blank line, the heading \<open>Description (body):\<close> and the
  body, a blank line, the heading \<open>Changed files (up to 50):\<close> and the file list.
\<close>

theorem summarize_scenario_output:
  "github_summarize_pull_request example_URL scenario_upstream scenario_url None None None None None =
     ([pull_request scenario_ref, page_request (lit ''acme'') (lit ''widgets'') (lit ''42'') 50 1],
      Inr (instructions @
           lit ''PR: https://github.com/acme/widgets/pull/42'' @ nl @
           lit ''Title: Fix bug'' @ nl @
           lit ''Author: alice'' @ nl @
           lit ''State: open | Draft: no | Merged: no'' @ nl @
           lit ''Base: main <- Head: fix'' @ nl @
           lit ''Commits: 3 | Files changed: 2 | Additions: 10 | Deletions: 4'' @ nl @
           nl @
           lit ''Description (body):'' @ nl @
           lit ''Fixes #1'' @ nl @
           nl @
           lit ''Changed files (up to 50):'' @ nl @
           lit ''- src/widget.js (+7/-4) [modified]'' @ nl @
           lit ''  patch:'' @ nl @
           lit ''@@ -1 +1 @@'' @ nl @
           lit ''  -old'' @ nl @
           lit ''  +new'' @ nl @
           nl @
           lit ''- README.md (+3/-0) [modified]''))"
  by (simp add: scenario_summary_steps scenario_summary_text)

text \<open>
  Claim C4 as stated fails: the output does not begin with the line
  \<open>PR: https://github.com/acme/widgets/pull/42\<close>; its first four characters are
  those of the instruction sentence.
\<close>

theorem summarize_scenario_first_line:
  "\<not> isl (snd (github_summarize_pull_request example_URL scenario_upstream scenario_url
            None None None None None)) \<and>
   take 4 (projr (snd (github_summarize_pull_request example_URL scenario_upstream scenario_url
            None None None None None))) =
     lit (''Us'' @ [CHR 0xE1] @ '' '') \<and>
   take 43 (projr (snd (github_summarize_pull_request example_URL scenario_upstream scenario_url
            None None None None None))) \<noteq>
     lit ''PR: https://github.com/acme/widgets/pull/42''"
  by (simp add: scenario_summary_steps instructions_def lit_eval)



subsection \<open>Patch excerpts\<close>

lemma file_line_patch:
  assumes "f \<noteq> JNull" and "get_prop f ''patch'' = Some (JStr s)"
  shows "file_line True m f =
           Inr (if take m s = [] then file_base f
                else file_base f @ nl @ lit ''  patch:'' @ nl @ indent_patch (take m s))"
  using assms by (simp add: file_line_def truthy_def Let_def)

lemma length_indent_patch:
  "length (indent_patch p) = length p + 2 * length (filter (\<lambda>c. [c] = nl) p)"
  by (induction p) (simp_all add: indent_patch_def nl_def)

text \<open>
  Claim C10, as amended.  For a file record whose \<open>patch\<close> is the string \<open>s\<close>:
  with \<open>max_patch_chars = 0\<close> only the line \<open>- filename (+A/-D) [status]\<close> is
  emitted, whether or not patches are included; with \<open>max_patch_chars = m > 0\<close> and
  a non-empty patch the line is followed by the excerpt \<open>take m s\<close>, which has at
  most \<open>m\<close> characters and is printed with two spaces inserted after each of its
  newlines, so that the printed excerpt has the length of the excerpt plus twice the
  number of its newlines.
\<close>

theorem file_line_excerpt:
  assumes "f \<noteq> JNull" and "get_prop f ''patch'' = Some (JStr s)"
  shows "file_line include_patches 0 f = Inr (file_base f) \<and>
         (0 < m \<and> s \<noteq> [] \<longrightarrow>
            file_line True m f =
              Inr (file_base f @ nl @ lit ''  patch:'' @ nl @ indent_patch (take m s)) \<and>
            length (take m s) \<le> m \<and>
            length (indent_patch (take m s)) =
              length (take m s) + 2 * length (filter (\<lambda>c. [c] = nl) (take m s)))"
proof -
  have "file_line include_patches 0 f = Inr (file_base f)"
    using assms by (simp add: file_line_def truthy_def Let_def)
  moreover have "file_line True m f =
      Inr (file_base f @ nl @ lit ''  patch:'' @ nl @ indent_patch (take m s))"
    if "0 < m" "s \<noteq> []"
    using that file_line_patch [OF assms, of m] by simp
  ultimately show ?thesis by (simp add: length_indent_patch)
qed

lemma example_file_base: "file_base example_file = lit ''- a.txt (+2/-0) [added]''"
  by (simp add: example_file_def file_base_def get_prop_def template_def String_int_def
      dec.simps lit_eval)

lemma example_file_patch: "get_prop example_file ''patch'' = Some (JStr (lit ''+a'' @ nl @ lit ''+b''))"
  by (simp add: example_file_def get_prop_def)

text \<open>The patch \<open>+a\<close>, newline, \<open>+b\<close>: nothing of it with the cap 0, its first
  four characters with the cap 4.\<close>

theorem file_line_excerpt_witness:
  "file_line True 0 example_file = Inr (lit ''- a.txt (+2/-0) [added]'') \<and>
   file_line True 4 example_file =
     Inr (lit ''- a.txt (+2/-0) [added]'' @ nl @ lit ''  patch:'' @ nl @
          lit ''+a'' @ nl @ lit ''  +'')"
  using file_line_excerpt [of example_file "lit ''+a'' @ nl @ lit ''+b''" True 4]
  by (simp add: example_file_base example_file_patch) (simp add: example_file_def lit_eval)

text \<open>
  Claim C10 as stated fails: with \<open>max_patch_chars = 5\<close> the excerpt printed for the
  five-character patch has seven characters, the newline being followed by two spaces.
\<close>

theorem file_line_excerpt_longer_than_cap:
  "file_line True 5 example_file =
     Inr (lit ''- a.txt (+2/-0) [added]'' @ nl @ lit ''  patch:'' @ nl @
          lit ''+a'' @ nl @ lit ''  +b'') \<and>
   length (lit ''+a'' @ nl @ lit ''  +b'') = 7"
  using file_line_patch [of example_file "lit ''+a'' @ nl @ lit ''+b''" 5]
  by (simp add: example_file_base example_file_patch) (simp add: example_file_def lit_eval)

section \<open>Properties of the URL parser\<close>

lemma findIndex_first:
  "i < length xs \<Longrightarrow> P (xs ! i) \<Longrightarrow> \<forall>j<i. \<not> P (xs ! j) \<Longrightarrow> findIndex P xs = int i"
proof (induction xs arbitrary: i)
  case Nil
  then show ?case by simp
next
  case (Cons x xs)
  show ?case
  proof (cases i)
    case 0
    with Cons.prems show ?thesis by simp
  next
    case (Suc k)
    with Cons.prems have "\<not> P x" by auto
    moreover have "findIndex P xs = int k"
      using Cons.prems Suc by (intro Cons.IH) auto
    ultimately show ?thesis using Suc by (simp add: Let_def)
  qed
qed

lemma findIndex_cases:
  "findIndex P xs = - 1 \<and> (\<forall>x\<in>set xs. \<not> P x) \<or>
   (\<exists>i<length xs. findIndex P xs = int i \<and> P (xs ! i) \<and> (\<forall>j<i. \<not> P (xs ! j)))"
proof (induction xs)
  case Nil
  then show ?case by simp
next
  case (Cons x xs)
  show ?case
  proof (cases "P x")
    case True
    then show ?thesis by auto
  next
    case False
    from Cons.IH show ?thesis
    proof
      assume "findIndex P xs = - 1 \<and> (\<forall>x\<in>set xs. \<not> P x)"
      with False show ?thesis by simp
    next
      assume "\<exists>i<length xs. findIndex P xs = int i \<and> P (xs ! i) \<and> (\<forall>j<i. \<not> P (xs ! j))"
      then obtain i where i: "i < length xs" "findIndex P xs = int i" "P (xs ! i)"
        "\<forall>j<i. \<not> P (xs ! j)" by blast
      have "\<forall>j<Suc i. \<not> P ((x # xs) ! j)"
        using False i(4) by (auto simp: nth_Cons split: nat.splits)
      with i False have "Suc i < length (x # xs) \<and> findIndex P (x # xs) = int (Suc i) \<and>
          P ((x # xs) ! Suc i) \<and> (\<forall>j<Suc i. \<not> P ((x # xs) ! j))"
        by (simp add: Let_def)
      then show ?thesis by blast
    qed
  qed
qed

lemma path_parts_nonempty: "p \<in> set (path_parts s) \<Longrightarrow> p \<noteq> []"
  by (simp add: path_parts_def)

text \<open>
  Claim C9, as amended.  For a URL with host name \<open>github.com\<close> whose first
  \<open>pull\<close> segment is at index \<open>i \<ge> 2\<close> of the non-empty path segments and is
  followed by a segment, \<open>parsePrUrl\<close> returns the first and the second segment as
  owner and repo, whatever lies between them and \<open>pull\<close>, and the segment right after
  that first \<open>pull\<close> as number, whatever follows it.
\<close>

theorem parsePrUrl_first_pull:
  assumes "new_URL s = Some u" and "hostname u = lit ''github.com''"
    and "parts = path_parts (pathname u)"
    and "i < length parts" and "parts ! i = lit ''pull''"
    and "\<forall>j<i. parts ! j \<noteq> lit ''pull''"
    and "2 \<le> i" and "Suc i < length parts"
  shows "parsePrUrl new_URL s =
           Inr \<lparr>owner = parts ! 0, repo = parts ! 1, number = parts ! Suc i\<rparr> \<and>
         parts ! Suc i \<noteq> []"
proof -
  have idx: "findIndex (\<lambda>p. p = lit ''pull'') parts = int i"
    using assms(4-6) by (intro findIndex_first) auto
  have ne: "parts ! Suc i \<noteq> []"
    using assms(3,8) path_parts_nonempty [of "parts ! Suc i" "pathname u"] by simp
  have "at_index parts (int i + 1) = Some (parts ! Suc i)"
    using assms(8) by (simp add: at_index_def nat_add_distrib)
  then show ?thesis
    using assms(1,2,7) ne idx assms(3) [symmetric]
    by (simp add: parsePrUrl_def falsy_def Let_def nat_add_distrib)
qed

text \<open>Extra segments before \<open>pull\<close> and after the number, and a query.\<close>

theorem parsePrUrl_first_pull_witness:
  "parsePrUrl example_URL (lit ''https://github.com/a/b/c/pull/5/files?w=1'') =
     Inr \<lparr>owner = lit ''a'', repo = lit ''b'', number = lit ''5''\<rparr>"
  using parsePrUrl_first_pull [of example_URL "lit ''https://github.com/a/b/c/pull/5/files?w=1''"
      "\<lparr>hostname = lit ''github.com'', pathname = lit ''/a/b/c/pull/5/files''\<rparr>"
      "map lit [''a'', ''b'', ''c'', ''pull'', ''5'', ''files'']" 3]
  by (simp add: example_URL_def path_parts_lit less_Suc_eq numeral_3_eq_3)

text \<open>
  Claim C9 as stated fails: the path \<open>/acme/pull/5/pull/6\<close> has a \<open>pull\<close> segment
  at index 3 followed by \<open>6\<close>, but its first \<open>pull\<close> segment is at index 1 and the
  URL is rejected.
\<close>

theorem parsePrUrl_later_pull_rejected:
  "example_URL (lit ''https://github.com/acme/pull/5/pull/6'') =
     Some \<lparr>hostname = lit ''github.com'', pathname = lit ''/acme/pull/5/pull/6''\<rparr> \<and>
   path_parts (lit ''/acme/pull/5/pull/6'') =
     [lit ''acme'', lit ''pull'', lit ''5'', lit ''pull'', lit ''6''] \<and>
   parsePrUrl example_URL (lit ''https://github.com/acme/pull/5/pull/6'') = Inl invalid_pr_url"
  by (simp add: example_URL_def path_parts_lit parsePrUrl_def Let_def)

text \<open>
  Claim C2 at the URL of a pull request of a repository named \<open>pull\<close>: the URL has
  the form \<open>https://github.com/{owner}/{repo}/pull/{number}\<close>, and is rejected.
\<close>

theorem parsePrUrl_repo_named_pull:
  "parsePrUrl example_URL (lit ''https://github.com/wei/pull/pull/123'') = Inl invalid_pr_url"
  by (simp add: example_URL_def path_parts_lit parsePrUrl_def Let_def)

text \<open>The result is not the reference the URL spells.\<close>

theorem parsePrUrl_repo_named_pull_witness:
  "parsePrUrl example_URL (lit ''https://github.com/wei/pull/pull/123'') \<noteq>
     Inr \<lparr>owner = lit ''wei'', repo = lit ''pull'', number = lit ''123''\<rparr>"
  using parsePrUrl_repo_named_pull by simp

text \<open>
  What the parser does with the URLs of the standard form otherwise: when neither the
  owner nor the repository is named \<open>pull\<close>, it returns the three parts.
\<close>

lemma split_on_no_sep: "c \<notin> set xs \<Longrightarrow> split_on c xs = [xs]"
  by (induction xs) auto

lemma split_on_append: "c \<notin> set xs \<Longrightarrow> split_on c (xs @ c # ys) = xs # split_on c ys"
  by (induction xs) auto

lemma path_parts_standard:
  assumes "of_char CHR ''/'' \<notin> set O'" "of_char CHR ''/'' \<notin> set R" "of_char CHR ''/'' \<notin> set N"
    and "O' \<noteq> []" "R \<noteq> []" "N \<noteq> []"
  shows "path_parts (lit ''/'' @ O' @ lit ''/'' @ R @ lit ''/pull/'' @ N) = [O', R, lit ''pull'', N]"
proof -
  let ?s = "of_char CHR ''/'' :: 16 word"
  have p: "?s \<notin> set (lit ''pull'')" by (simp add: lit_def)
  have e: "lit ''/'' @ O' @ lit ''/'' @ R @ lit ''/pull/'' @ N =
        [] @ ?s # (O' @ ?s # (R @ ?s # (lit ''pull'' @ ?s # N)))"
    by (simp add: lit_def)
  have "split_on ?s (lit ''/'' @ O' @ lit ''/'' @ R @ lit ''/pull/'' @ N) =
        [[], O', R, lit ''pull'', N]"
    unfolding e using assms(1-3) p
    by (simp only: split_on_append split_on_no_sep set_simps empty_iff not_False_eq_True)
  then show ?thesis using assms(4-6) by (simp add: path_parts_def)
qed

lemma parsePrUrl_standard_form:
  assumes "new_URL s = Some u" and "hostname u = lit ''github.com''"
    and "pathname u = lit ''/'' @ O' @ lit ''/'' @ R @ lit ''/pull/'' @ N"
    and "of_char CHR ''/'' \<notin> set O'" "of_char CHR ''/'' \<notin> set R" "of_char CHR ''/'' \<notin> set N"
    and "O' \<noteq> []" "R \<noteq> []" "N \<noteq> []"
    and "O' \<noteq> lit ''pull''" "R \<noteq> lit ''pull''"
  shows "parsePrUrl new_URL s = Inr \<lparr>owner = O', repo = R, number = N\<rparr>"
proof -
  have parts: "path_parts (pathname u) = [O', R, lit ''pull'', N]"
    using assms(3-9) by (simp add: path_parts_standard)
  show ?thesis
    using assms(1,2,9-11)
    by (simp add: parsePrUrl_def parts Let_def at_index_def falsy_def)
qed

text \<open>
  The parser rejects, with the invalid-URL error, a URL that parses with another host
  name, or with no \<open>pull\<close> segment at index 2 or later, or with nothing after its
  first \<open>pull\<close> segment.
\<close>

lemma parsePrUrl_rejects:
  assumes "new_URL s = Some u" and "parts = path_parts (pathname u)"
    and "hostname u \<noteq> lit ''github.com'' \<or>
         (\<forall>i. 2 \<le> i \<and> i < length parts \<longrightarrow> parts ! i \<noteq> lit ''pull'') \<or>
         (\<exists>i. Suc i = length parts \<and> parts ! i = lit ''pull'' \<and>
              (\<forall>j<i. parts ! j \<noteq> lit ''pull''))"
  shows "parsePrUrl new_URL s = Inl invalid_pr_url"
proof -
  let ?idx = "findIndex (\<lambda>p. p = lit ''pull'') parts"
  have "hostname u \<noteq> lit ''github.com'' \<or> ?idx < 2 \<or> falsy (at_index parts (?idx + 1))"
    using assms(3)
  proof (elim disjE exE conjE)
    assume none: "\<forall>i. 2 \<le> i \<and> i < length parts \<longrightarrow> parts ! i \<noteq> lit ''pull''"
    have "?idx < 2"
      using findIndex_cases [of "\<lambda>p. p = lit ''pull''" parts]
    proof (elim disjE exE conjE)
      fix i
      assume i: "i < length parts" "?idx = int i" "parts ! i = lit ''pull''"
      with none have "\<not> 2 \<le> i" by blast
      with i(2) show ?thesis by simp
    qed simp
    then show ?thesis by simp
  next
    fix i
    assume i: "Suc i = length parts" "parts ! i = lit ''pull''" "\<forall>j<i. parts ! j \<noteq> lit ''pull''"
    then have "?idx = int i" by (intro findIndex_first) auto
    then have "falsy (at_index parts (?idx + 1))"
      using i(1) by (simp add: at_index_def falsy_def)
    then show ?thesis by simp
  qed simp
  then show ?thesis
    using assms(1,2) by (auto simp: parsePrUrl_def Let_def)
qed


section \<open>Upstream errors\<close>

lemma aborts_no_requests: "aborts_on_upstream_error up log (log, r)"
  by (simp add: aborts_on_upstream_error_def)

lemma aborts_ghFetchJson: "aborts_on_upstream_error up log (ghFetchJson up u log)"
  by (auto simp: aborts_on_upstream_error_def ghFetchJson_def Let_def Cons_eq_append_conv
      append_eq_Cons_conv)

lemma aborts_ghFetchText: "aborts_on_upstream_error up log (ghFetchText up u a log)"
  by (auto simp: aborts_on_upstream_error_def ghFetchText_def Let_def Cons_eq_append_conv
      append_eq_Cons_conv)

lemma aborts_success_clean:
  assumes "aborts_on_upstream_error up log0 (log1, Inr x)"
  shows "\<exists>new. log1 = log0 @ new \<and>
           (\<forall>pre req post resp.
              new = pre @ req # post \<and> up (log0 @ pre) req = Inr resp \<longrightarrow> ok resp)"
  using assms unfolding aborts_on_upstream_error_def by fastforce

lemma aborts_result:
  assumes "aborts_on_upstream_error up log0 (log, r)" and "\<And>e. r = Inl e \<Longrightarrow> r' = Inl e"
  shows "aborts_on_upstream_error up log0 (log, r')"
  using assms unfolding aborts_on_upstream_error_def by fastforce

lemma aborts_after_success:
  assumes "aborts_on_upstream_error up log0 (log1, Inr x)"
  shows "aborts_on_upstream_error up log0 (log1, r)"
  using assms by (rule aborts_result) simp

lemma aborts_seq:
  assumes first: "aborts_on_upstream_error up log0 (log1, Inr x)"
    and second: "aborts_on_upstream_error up log1 (log2, r)"
  shows "aborts_on_upstream_error up log0 (log2, r)"
proof -
  from aborts_success_clean [OF first] obtain n1 where n1: "log1 = log0 @ n1"
    and clean: "\<And>pre req post resp. n1 = pre @ req # post \<Longrightarrow> up (log0 @ pre) req = Inr resp \<Longrightarrow> ok resp"
    by blast
  from second obtain n2 where n2: "log2 = log1 @ n2"
    and ab: "\<And>pre req post resp. n2 = pre @ req # post \<Longrightarrow> up (log1 @ pre) req = Inr resp \<Longrightarrow>
        \<not> ok resp \<Longrightarrow> post = [] \<and> r = Inl (api_error resp)"
    unfolding aborts_on_upstream_error_def by fastforce
  have "post = [] \<and> r = Inl (api_error resp)"
    if split: "n1 @ n2 = pre @ req # post" and resp: "up (log0 @ pre) req = Inr resp" and bad: "\<not> ok resp"
    for pre req post resp
  proof -
    from split consider (left) us where "n1 = pre @ us" "us @ n2 = req # post"
      | (right) us where "n1 @ us = pre" "n2 = us @ req # post"
      by (auto simp: append_eq_append_conv2)
    then show ?thesis
    proof cases
      case left
      show ?thesis
      proof (cases us)
        case Nil
        with left have "n2 = [] @ req # post" "log1 @ [] = log0 @ pre" by (simp_all add: n1)
        with ab [of "[]" req post resp] resp bad show ?thesis by simp
      next
        case (Cons a as)
        with left have "n1 = pre @ req # as" by simp
        from clean [OF this resp] bad show ?thesis by simp
      qed
    next
      case right
      then have "log0 @ pre = log1 @ us" by (simp add: n1)
      with ab [OF right(2)] resp bad show ?thesis by simp
    qed
  qed
  then show ?thesis
    unfolding aborts_on_upstream_error_def using n1 n2 by auto
qed

lemma aborts_files_loop:
  "aborts_on_upstream_error up log (files_loop up own rep num max_files perPage page all log)"
proof (induction up own rep num max_files perPage page all log rule: files_loop.induct)
  case (1 up own rep num max_files perPage page all log)
  let ?cpp = "min perPage (max_files - length all)"
  let ?f = "ghFetchJson up (PullFiles own rep num ?cpp page) log"
  obtain log' res where f: "?f = (log', res)" by (cases ?f)
  have af: "aborts_on_upstream_error up log (log', res)"
    using aborts_ghFetchJson [of up log "PullFiles own rep num ?cpp page"] f by simp
  show ?case
  proof (cases "length all < max_files")
    case False
    then show ?thesis by (subst files_loop.simps) (simp add: aborts_no_requests)
  next
    case True
    show ?thesis
    proof (cases res)
      case (Inl e)
      have "aborts_on_upstream_error up log (log', Inl e :: js_error + json list)"
        using af Inl by (auto intro: aborts_result)
      then show ?thesis using True f Inl by (subst files_loop.simps) (simp add: Let_def)
    next
      case (Inr batch)
      have stop: "aborts_on_upstream_error up log (log', Inr ys)" for ys :: "json list"
        using af Inr by (auto intro: aborts_after_success)
      show ?thesis
      proof (cases "\<exists>b. batch = JArr b \<and> b \<noteq> [] \<and> \<not> length b < ?cpp")
        case False
        then show ?thesis using True f Inr stop
          by (subst files_loop.simps) (auto simp: Let_def split: json.splits)
      next
        case go: True
        then obtain b where b: "batch = JArr b" "b \<noteq> []" "\<not> length b < ?cpp" by blast
        have "aborts_on_upstream_error up log'
                (files_loop up own rep num max_files perPage (page + 1) (all @ b) log')"
          using True f Inr b by (intro "1.IH") auto
        then have "aborts_on_upstream_error up log
                (files_loop up own rep num max_files perPage (page + 1) (all @ b) log')"
          using aborts_seq [OF stop] by (metis surj_pair)
        then show ?thesis using True f Inr b
          by (subst files_loop.simps) (auto simp: Let_def)
      qed
    qed
  qed
qed

lemma aborts_listPrFilesPaginated:
  "aborts_on_upstream_error up log (listPrFilesPaginated up own rep num max_files log)"
proof -
  let ?l = "files_loop up own rep num max_files (min 100 (max 1 max_files)) 1 [] log"
  obtain log' res where l: "?l = (log', res)" by (cases ?l)
  have "aborts_on_upstream_error up log (log', res)"
    using aborts_files_loop [of up log own rep num max_files "min 100 (max 1 max_files)" 1 "[]"] l
    by simp
  then show ?thesis
    using l by (cases res) (auto simp: listPrFilesPaginated_def intro: aborts_result)
qed


lemma aborts_resultI:
  assumes "aborts_on_upstream_error up log0 (log, r)"
    and "fst run = log" and "\<And>e. r = Inl e \<Longrightarrow> snd run = Inl e"
  shows "aborts_on_upstream_error up log0 run"
  using aborts_result [OF assms(1), of "snd run"] assms(2,3) by (cases run) auto

lemma aborts_github_list_repos:
  "aborts_on_upstream_error up [] (github_list_repos up visibility_arg per_page_arg)"
proof -
  let ?f = "ghFetchJson up (UserRepos (default 100 per_page_arg)
              (default (lit ''all'') visibility_arg)) []"
  obtain log r where f: "?f = (log, r)" by (cases ?f)
  have "aborts_on_upstream_error up [] (log, r)"
    using aborts_ghFetchJson [of up "[]"] f by metis
  then show ?thesis
    by (rule aborts_resultI)
       (auto simp: github_list_repos_def Let_def f split: sum.splits)
qed

lemma aborts_github_list_pull_requests:
  "aborts_on_upstream_error up []
     (github_list_pull_requests up own rep state_arg per_page_arg)"
proof -
  let ?f = "ghFetchJson up (RepoPulls own rep (default (lit ''open'') state_arg)
              (default 30 per_page_arg)) []"
  obtain log r where f: "?f = (log, r)" by (cases ?f)
  have "aborts_on_upstream_error up [] (log, r)"
    using aborts_ghFetchJson [of up "[]"] f by metis
  then show ?thesis
    by (rule aborts_resultI)
       (auto simp: github_list_pull_requests_def Let_def f split: sum.splits)
qed

lemma aborts_github_get_pull_request_diff:
  "aborts_on_upstream_error up []
     (github_get_pull_request_diff new_URL up pr_url max_diff_chars_arg)"
proof (cases "parsePrUrl new_URL pr_url")
  case (Inl e)
  then show ?thesis
    by (simp add: github_get_pull_request_diff_def aborts_no_requests)
next
  case (Inr ref)
  let ?f = "ghFetchText up (Pull (owner ref) (repo ref) (number ref)) diff_accept []"
  obtain log r where f: "?f = (log, r)" by (cases ?f)
  have "aborts_on_upstream_error up [] (log, r)"
    using aborts_ghFetchText [of up "[]"] f by metis
  then show ?thesis
    by (rule aborts_resultI)
       (auto simp: github_get_pull_request_diff_def Let_def Inr f split: sum.splits)
qed

lemma aborts_github_summarize_pull_request:
  "aborts_on_upstream_error up []
     (github_summarize_pull_request new_URL up pr_url include_patches_arg max_files_arg
        max_patch_chars_arg include_diff_arg max_diff_chars_arg)"
    (is "aborts_on_upstream_error up [] ?run")
proof (cases "parsePrUrl new_URL pr_url")
  case (Inl e)
  then show ?thesis
    by (simp add: github_summarize_pull_request_def aborts_no_requests)
next
  case ref: (Inr ref)
  let ?u = "Pull (owner ref) (repo ref) (number ref)"
  obtain log1 r1 where f1: "ghFetchJson up ?u [] = (log1, r1)" by (cases "ghFetchJson up ?u []")
  have a1: "aborts_on_upstream_error up [] (log1, r1)"
    using aborts_ghFetchJson [of up "[]" ?u] f1 by simp
  show ?thesis
  proof (cases r1)
    case (Inl e)
    from a1 show ?thesis
      by (rule aborts_resultI) (simp_all add: github_summarize_pull_request_def ref f1 Inl)
  next
    case pr: (Inr pr)
    let ?l = "listPrFilesPaginated up (owner ref) (repo ref) (number ref)
                (default 50 max_files_arg) log1"
    obtain log2 r2 where f2: "?l = (log2, r2)" by (cases ?l)
    have "aborts_on_upstream_error up log1 (log2, r2)"
      using aborts_listPrFilesPaginated [of up log1 "owner ref" "repo ref" "number ref"
          "default 50 max_files_arg"] f2 by simp
    with a1 pr have a2: "aborts_on_upstream_error up [] (log2, r2)"
      by (auto intro: aborts_seq)
    show ?thesis
    proof (cases r2)
      case (Inl e)
      from a2 show ?thesis
        by (rule aborts_resultI)
           (simp_all add: github_summarize_pull_request_def ref f1 pr f2 Inl)
    next
      case files: (Inr files)
      let ?m = "map_result (file_line (default True include_patches_arg)
                  (default 2000 max_patch_chars_arg)) files"
      show ?thesis
      proof (cases "\<exists>ls. ?m = Inr ls \<and> default False include_diff_arg")
        case False
        show ?thesis
          using False
          by (intro aborts_resultI [OF a2])
             (auto simp: github_summarize_pull_request_def ref f1 pr f2 files split: sum.splits)
      next
        case True
        then obtain ls where ls: "?m = Inr ls" and d: "default False include_diff_arg" by blast
        obtain log3 r3 where f3: "ghFetchText up ?u diff_accept log2 = (log3, r3)"
          by (cases "ghFetchText up ?u diff_accept log2")
        have "aborts_on_upstream_error up log2 (log3, r3)"
          using aborts_ghFetchText [of up log2 ?u diff_accept] f3 by simp
        with a2 files have a3: "aborts_on_upstream_error up [] (log3, r3)"
          by (auto intro: aborts_seq)
        from a3 show ?thesis
          by (rule aborts_resultI)
             (auto simp: github_summarize_pull_request_def ref f1 pr f2 files ls d f3
                 split: sum.splits)
      qed
    qed
  qed
qed


text \<open>
  Claim C7.  When the upstream answers a request with a status outside 200..299,
  \<open>ghFetchJson\<close> and \<open>ghFetchText\<close> throw an error whose message carries that
  status and the text of the body.  A call of any of the four tools aborts on such an
  answer: the request is the last one the tool sends and the tool's result is that
  error, whatever the status is.
\<close>

theorem upstream_errors_propagate:
  "(up log (u, json_accept) = Inr resp \<and> \<not> ok resp \<longrightarrow>
      ghFetchJson up u log = (log @ [(u, json_accept)], Inl (api_error resp))) \<and>
   (up log (u, accept) = Inr resp \<and> \<not> ok resp \<longrightarrow>
      ghFetchText up u accept log = (log @ [(u, accept)], Inl (api_error resp))) \<and>
   api_error resp =
     Error (lit ''GitHub API error '' @ String_nat (status resp) @ lit '': '' @ body_text resp) \<and>
   aborts_on_upstream_error up [] (github_list_repos up visibility_arg per_page_arg) \<and>
   aborts_on_upstream_error up []
     (github_list_pull_requests up own rep state_arg per_page_arg') \<and>
   aborts_on_upstream_error up []
     (github_get_pull_request_diff new_URL up pr_url max_diff_chars_arg) \<and>
   aborts_on_upstream_error up []
     (github_summarize_pull_request new_URL up pr_url include_patches_arg max_files_arg
        max_patch_chars_arg include_diff_arg max_diff_chars_arg')"
proof (intro conjI impI)
  assume "up log (u, json_accept) = Inr resp \<and> \<not> ok resp"
  then show "ghFetchJson up u log = (log @ [(u, json_accept)], Inl (api_error resp))"
    by (simp add: ghFetchJson_def Let_def)
next
  assume "up log (u, accept) = Inr resp \<and> \<not> ok resp"
  then show "ghFetchText up u accept log = (log @ [(u, accept)], Inl (api_error resp))"
    by (simp add: ghFetchText_def Let_def)
next
  show "api_error resp =
     Error (lit ''GitHub API error '' @ String_nat (status resp) @ lit '': '' @ body_text resp)"
    by (simp add: api_error_def)
qed (rule aborts_github_list_repos aborts_github_list_pull_requests
      aborts_github_get_pull_request_diff aborts_github_summarize_pull_request)+

text \<open>The mock answers the request for the list of pull requests with 404.\<close>

theorem upstream_errors_propagate_witness:
  "ghFetchJson scenario_upstream (RepoPulls (lit ''acme'') (lit ''widgets'') (lit ''open'') 30) [] =
     ([(RepoPulls (lit ''acme'') (lit ''widgets'') (lit ''open'') 30, json_accept)],
      Inl (Error (lit ''GitHub API error 404: Not Found''))) \<and>
   github_list_pull_requests scenario_upstream (lit ''acme'') (lit ''widgets'') None None =
     ([(RepoPulls (lit ''acme'') (lit ''widgets'') (lit ''open'') 30, json_accept)],
      Inl (Error (lit ''GitHub API error 404: Not Found'')))"
proof -
  let ?req = "(RepoPulls (lit ''acme'') (lit ''widgets'') (lit ''open'') 30, json_accept)"
  let ?run = "github_list_pull_requests scenario_upstream (lit ''acme'') (lit ''widgets'') None None"
  note t = upstream_errors_propagate [where up = scenario_upstream and log = "[]"
      and u = "RepoPulls (lit ''acme'') (lit ''widgets'') (lit ''open'') 30" and resp = not_found
      and own = "lit ''acme''" and rep = "lit ''widgets''" and state_arg = None
      and per_page_arg' = None]
  have up: "scenario_upstream [] ?req = Inr not_found"
    by (simp add: scenario_upstream_def mock_upstream_def)
  have bad: "\<not> ok not_found" by (simp add: ok_def not_found_def)
  have msg: "api_error not_found = Error (lit ''GitHub API error 404: Not Found'')"
    by (simp add: api_error_def not_found_def lit_eval dec.simps)
  from t up bad have fetch: "ghFetchJson scenario_upstream
      (RepoPulls (lit ''acme'') (lit ''widgets'') (lit ''open'') 30) [] = ([?req], Inl (api_error not_found))"
    by simp
  from t have "aborts_on_upstream_error scenario_upstream [] ?run" by simp
  moreover have log: "fst ?run = [] @ [] @ ?req # []"
    by (simp add: github_list_pull_requests_def default_def ghFetchJson_def Let_def
        split: prod.splits sum.splits)
  ultimately have "snd ?run = Inl (api_error not_found)"
    unfolding aborts_on_upstream_error_def using up bad by (metis append_Nil)
  with log fetch show ?thesis by (simp add: msg prod_eq_iff)
qed
end
